theory Spec2Isabelle
  imports Complex_Main "HOL-Library.Word" "HOL-Library.List_Lexorder"
begin

section \<open>JavaScript values used by docshot\<close>

text \<open>
  A JavaScript string is a sequence of UTF-16 code units. Comparison of strings (the
  default order of \<open>Array.prototype.sort\<close>) is the lexicographic order on code
  units, which is the order \<open>HOL-Library.List_Lexorder\<close> gives to lists of words.
  \<open>js\<close> turns an ASCII literal of the source into its code units.
\<close>

type_synonym code_unit = "16 word"
type_synonym js_string = "code_unit list"

definition js :: "string \<Rightarrow> js_string" where
  "js s = map (\<lambda>c. word_of_nat (of_char c)) s"

text \<open>
  \<open>Array.prototype.slice(start, end)\<close>: negative indices count from the end, both
  indices are clamped to the array, and an empty range gives the empty array.
\<close>

definition js_slice :: "'a list \<Rightarrow> int \<Rightarrow> int \<Rightarrow> 'a list" where
  "js_slice xs start end =
     (let len = int (length xs);
          k = (if start < 0 then max (len + start) 0 else min start len);
          final = (if end < 0 then max (len + end) 0 else min end len)
      in take (nat (final - k)) (drop (nat k) xs))"

text \<open>\<open>slice(start)\<close> with the end left out runs to the end of the array.\<close>

definition js_slice_from :: "'a list \<Rightarrow> int \<Rightarrow> 'a list" where
  "js_slice_from xs start = js_slice xs start (int (length xs))"

subsection \<open>String builtins\<close>

text \<open>
  \<open>String.prototype.trim\<close> removes the WhiteSpace and LineTerminator code points of
  ECMAScript from both ends. All of them are single code units.
\<close>

definition isWhiteSpace :: "code_unit \<Rightarrow> bool" where
  "isWhiteSpace c \<longleftrightarrow>
     c \<in> {0x09, 0x0A, 0x0B, 0x0C, 0x0D, 0x20, 0xA0, 0x1680, 0x2028, 0x2029, 0x202F,
          0x205F, 0x3000, 0xFEFF} \<or> (0x2000 \<le> c \<and> c \<le> 0x200A)"

definition js_trim :: "js_string \<Rightarrow> js_string" where
  "js_trim s = rev (dropWhile isWhiteSpace (rev (dropWhile isWhiteSpace s)))"

definition startsWith :: "js_string \<Rightarrow> js_string \<Rightarrow> bool" where
  "startsWith s searchString \<longleftrightarrow> take (length searchString) s = searchString"

definition endsWith :: "js_string \<Rightarrow> js_string \<Rightarrow> bool" where
  "endsWith s searchString \<longleftrightarrow>
     length searchString \<le> length s \<and>
     drop (length s - length searchString) s = searchString"

text \<open>
  \<open>String(n)\<close> for an integer: the decimal digits, with a minus sign for a negative
  number. (Integers of magnitude \<open>10^21\<close> and more print in exponent notation; the
  page and line numbers of this program are far below.)
\<close>

definition digitChar :: "nat \<Rightarrow> code_unit" where
  "digitChar d = word_of_nat (48 + d)"

fun decimalDigits :: "nat \<Rightarrow> js_string" where
  "decimalDigits n =
     (if n < 10 then [digitChar n] else decimalDigits (n div 10) @ [digitChar (n mod 10)])"

declare decimalDigits.simps [simp del]

definition String :: "int \<Rightarrow> js_string" where
  "String n = (if n < 0 then js ''-'' @ decimalDigits (nat (- n)) else decimalDigits (nat n))"

text \<open>
  \<open>padStart(targetLength, padString)\<close> and \<open>padEnd\<close>: the string is returned
  unchanged when it is long enough or the filler is empty; otherwise the filler is
  repeated and cut to the missing length, and put before (after) the string.
\<close>

definition padStart :: "js_string \<Rightarrow> nat \<Rightarrow> js_string \<Rightarrow> js_string" where
  "padStart s targetLength padString =
     (if targetLength \<le> length s \<or> padString = [] then s
      else take (targetLength - length s)
             (concat (replicate (targetLength - length s) padString)) @ s)"

definition padEnd :: "js_string \<Rightarrow> nat \<Rightarrow> js_string \<Rightarrow> js_string" where
  "padEnd s targetLength padString =
     (if targetLength \<le> length s \<or> padString = [] then s
      else s @ take (targetLength - length s)
                 (concat (replicate (targetLength - length s) padString)))"

text \<open>
  \<open>String.prototype.toLowerCase\<close> on the ASCII letters. The case mapping of code
  points outside ASCII is not modelled; none of them maps to one of the characters of
  \<open>.png\<close>, so the test of the file extension does not depend on it.
\<close>

definition toLowerCase :: "js_string \<Rightarrow> js_string" where
  "toLowerCase s = map (\<lambda>c. if 0x41 \<le> c \<and> c \<le> 0x5A then c + 0x20 else c) s"

subsection \<open>Array builtins\<close>

text \<open>\<open>Array.prototype.findIndex\<close>: the first index that satisfies the test, or -1.\<close>

fun findIndex_from :: "('a \<Rightarrow> bool) \<Rightarrow> 'a list \<Rightarrow> int \<Rightarrow> int" where
  "findIndex_from p [] k = - 1"
| "findIndex_from p (x # xs) k = (if p x then k else findIndex_from p xs (k + 1))"

definition findIndex :: "('a \<Rightarrow> bool) \<Rightarrow> 'a list \<Rightarrow> int" where
  "findIndex p xs = findIndex_from p xs 0"

text \<open>\<open>Array.prototype.join(separator)\<close> on an array of strings.\<close>

fun array_join :: "js_string list \<Rightarrow> js_string \<Rightarrow> js_string" where
  "array_join [] sep = []"
| "array_join [x] sep = x"
| "array_join (x # y # ys) sep = x @ sep @ array_join (y # ys) sep"

subsection \<open>Decimal digits\<close>

text \<open>
  Reading a string of decimal digits back as a number; used to show that different
  numbers print differently.
\<close>

definition digitValue :: "code_unit \<Rightarrow> nat" where
  "digitValue c = unat c - 48"

definition parseDigits :: "js_string \<Rightarrow> nat" where
  "parseDigits s = foldl (\<lambda>a c. 10 * a + digitValue c) 0 s"


subsection \<open>Regular expressions\<close>

text \<open>
  The fragment of ECMAScript regular expressions that the source uses, without flags:
  a literal character sequence, alternation, sequencing, the assertion \<open>^\<close> (start of
  input, since the multiline flag is off) and the assertion \<open>\b\<close>. \<open>rmatch r s i\<close>
  lists, in the backtracking order of the matcher, the positions where a match of
  \<open>r\<close> that starts at position \<open>i\<close> of \<open>s\<close> can end.
\<close>

datatype regex =
    Chars js_string
  | Alt regex regex
  | Seq regex regex
  | LineStart
  | WordBoundary

text \<open>\<open>\w\<close> without the unicode and ignoreCase flags: \<open>[A-Za-z0-9_]\<close>.\<close>

definition isWordChar :: "code_unit \<Rightarrow> bool" where
  "isWordChar c \<longleftrightarrow>
     (0x30 \<le> c \<and> c \<le> 0x39) \<or> (0x41 \<le> c \<and> c \<le> 0x5A) \<or>
     (0x61 \<le> c \<and> c \<le> 0x7A) \<or> c = 0x5F"

definition isWordCharAt :: "js_string \<Rightarrow> int \<Rightarrow> bool" where
  "isWordCharAt s e \<longleftrightarrow> 0 \<le> e \<and> e < int (length s) \<and> isWordChar (s ! nat e)"

fun rmatch :: "regex \<Rightarrow> js_string \<Rightarrow> nat \<Rightarrow> nat list" where
  "rmatch (Chars cs) s i =
     (if take (length cs) (drop i s) = cs then [i + length cs] else [])"
| "rmatch (Alt a b) s i = rmatch a s i @ rmatch b s i"
| "rmatch (Seq a b) s i = concat (map (rmatch b s) (rmatch a s i))"
| "rmatch LineStart s i = (if i = 0 then [i] else [])"
| "rmatch WordBoundary s i =
     (if isWordCharAt s (int i - 1) \<noteq> isWordCharAt s (int i) then [i] else [])"

text \<open>
  \<open>RegExp.prototype.test\<close> of a regular expression without the global and sticky
  flags: the match is tried at every start position from 0 to the length of the input.
\<close>

definition regex_test :: "regex \<Rightarrow> js_string \<Rightarrow> bool" where
  "regex_test r s = list_ex (\<lambda>i. rmatch r s i \<noteq> []) [0 ..< Suc (length s)]"

fun alternation :: "regex list \<Rightarrow> regex" where
  "alternation [] = Chars []"
| "alternation [r] = r"
| "alternation (r # rs) = Alt r (alternation rs)"

section \<open>generator.ts: the Line Classifier\<close>

definition TEXT_COLOR :: js_string where
  "TEXT_COLOR = js ''rgb(212, 212, 212)''"

definition COMMENT_COLOR :: js_string where
  "COMMENT_COLOR = js ''rgb(106, 153, 85)''"

definition KEYWORD_COLOR :: js_string where
  "KEYWORD_COLOR = js ''rgb(86, 156, 214)''"

text \<open>
  The regular expression of line 42:
  \<^verbatim>\<open>/^(function|const|let|var|class|import|export|return|if|else|for|while|async|await|interface|type|enum)\b/\<close>
\<close>

definition keywordPattern :: regex where
  "keywordPattern =
     Seq LineStart
       (Seq (alternation (map (\<lambda>w. Chars (js w))
               [''function'', ''const'', ''let'', ''var'', ''class'', ''import'', ''export'',
                ''return'', ''if'', ''else'', ''for'', ''while'', ''async'', ''await'',
                ''interface'', ''type'', ''enum'']))
            WordBoundary)"

definition getLineColor :: "js_string \<Rightarrow> js_string" where
  "getLineColor line =
     (let trimmed = js_trim line in
      if startsWith trimmed (js ''#'') \<or> startsWith trimmed (js ''//'') then COMMENT_COLOR
      else if startsWith trimmed (js ''#'') then KEYWORD_COLOR
      else if regex_test keywordPattern trimmed then KEYWORD_COLOR
      else TEXT_COLOR)"

text \<open>
  The same control flow, returning which of the four \<open>return\<close> statements of
  \<open>getLineColor\<close> is executed instead of the colour it returns.
\<close>

datatype branch = CommentBranch | MarkdownHeaderBranch | KeywordBranch | DefaultBranch

definition getLineColor_branch :: "js_string \<Rightarrow> branch" where
  "getLineColor_branch line =
     (let trimmed = js_trim line in
      if startsWith trimmed (js ''#'') \<or> startsWith trimmed (js ''//'') then CommentBranch
      else if startsWith trimmed (js ''#'') then MarkdownHeaderBranch
      else if regex_test keywordPattern trimmed then KeywordBranch
      else DefaultBranch)"

fun branchColor :: "branch \<Rightarrow> js_string" where
  "branchColor CommentBranch = COMMENT_COLOR"
| "branchColor MarkdownHeaderBranch = KEYWORD_COLOR"
| "branchColor KeywordBranch = KEYWORD_COLOR"
| "branchColor DefaultBranch = TEXT_COLOR"

subsection \<open>The Line Classifier as the specification words it\<close>

datatype ColorCategory = CommentCategory | KeywordCategory | DefaultCategory

fun categoryColor :: "ColorCategory \<Rightarrow> js_string" where
  "categoryColor CommentCategory = COMMENT_COLOR"
| "categoryColor KeywordCategory = KEYWORD_COLOR"
| "categoryColor DefaultCategory = TEXT_COLOR"

definition spec_keywords :: "string list" where
  "spec_keywords =
     [''function'', ''const'', ''let'', ''var'', ''class'', ''import'', ''export'', ''return'',
      ''if'', ''else'', ''for'', ''while'', ''async'', ''await'', ''interface'', ''type'',
      ''enum'']"

text \<open>
  A keyword is a whole-word prefix of a string when the string starts with it and the
  keyword is not continued by a further word character (a letter, a digit or \<open>_\<close>).
\<close>

definition whole_word_prefix :: "js_string \<Rightarrow> js_string \<Rightarrow> bool" where
  "whole_word_prefix w s \<longleftrightarrow>
     startsWith s w \<and> (length s = length w \<or> \<not> isWordChar (s ! length w))"

definition classify_spec :: "js_string \<Rightarrow> ColorCategory" where
  "classify_spec line =
     (let trimmed = js_trim line in
      if startsWith trimmed (js ''#'') \<or> startsWith trimmed (js ''//'') then CommentCategory
      else if list_ex (\<lambda>w. whole_word_prefix (js w) trimmed) spec_keywords
        then KeywordCategory
      else DefaultCategory)"

section \<open>generator.ts: the Paginator\<close>

text \<open>
  Lines 60 to 65 of \<open>generateImages\<close>:
  \<^verbatim>\<open>
  for (let i = 0; i < lines.length; i += linesPerPage) {
    pages.push(lines.slice(i, i + linesPerPage));
  }
  \<close>
  \<open>linesPerPage\<close> comes from \<open>parseInt\<close> or a preset, an integer. With
  \<open>linesPerPage \<le> 0\<close> and a non-empty document the loop never ends, so the loop is
  a partial function: \<open>None\<close> is "does not return".
\<close>

partial_function (option) paginate_loop ::
  "'a list \<Rightarrow> int \<Rightarrow> int \<Rightarrow> 'a list list \<Rightarrow> 'a list list option" where
  "paginate_loop lines linesPerPage i pages =
     (if i < int (length lines)
      then paginate_loop lines linesPerPage (i + linesPerPage)
             (pages @ [js_slice lines i (i + linesPerPage)])
      else Some pages)"

declare paginate_loop.simps [code]

definition paginate :: "'a list \<Rightarrow> int \<Rightarrow> 'a list list option" where
  "paginate lines linesPerPage = paginate_loop lines linesPerPage 0 []"

text \<open>Line 96: the 1-based number of the first line of page \<open>pageNum\<close>.\<close>

definition startLineNum :: "int \<Rightarrow> int \<Rightarrow> int" where
  "startLineNum pageNum linesPerPage = pageNum * linesPerPage + 1"

section \<open>generator.ts: the File Namer\<close>

text \<open>
  Lines 74 and 119: \<open>currentPage = pageNum + 1\<close> and
  \<^verbatim>\<open>const filename = `page_${String(currentPage).padStart(3, '0')}.png`;\<close>
\<close>

definition filename :: "nat \<Rightarrow> js_string" where
  "filename pageNum =
     (let currentPage = int pageNum + 1
      in js ''page_'' @ padStart (String currentPage) 3 (js ''0'') @ js ''.png'')"

section \<open>generator.ts: the Page Renderer\<close>

text \<open>
  The 2d context of the canvas is a state: the current fill style and font, and the
  drawing calls made so far, each with the fill style it was made with. Coordinates are
  real numbers. \<open>measureText\<close> depends on the font tables of the rendering backend;
  it is a parameter that maps the current font and a text to the width of the text.
\<close>

definition BG_COLOR :: js_string where
  "BG_COLOR = js ''rgb(30, 30, 30)''"

definition LINE_NUMBER_COLOR :: js_string where
  "LINE_NUMBER_COLOR = js ''rgb(133, 133, 133)''"

definition PADDING :: int where
  "PADDING = 40"

definition LINE_HEIGHT_MULTIPLIER :: real where
  "LINE_HEIGHT_MULTIPLIER = 1.6"

datatype draw_op =
    FillRect js_string real real real real
  | FillText js_string js_string real real

record canvas =
  width :: int
  height :: int
  fillStyle :: js_string
  font :: js_string
  drawn :: "draw_op list"

type_synonym text_metrics = "js_string \<Rightarrow> js_string \<Rightarrow> real"

definition createCanvas :: "int \<Rightarrow> int \<Rightarrow> canvas" where
  "createCanvas w h =
     \<lparr>width = w, height = h, fillStyle = js ''#000000'', font = js ''10px sans-serif'',
      drawn = []\<rparr>"

definition fillRect :: "real \<Rightarrow> real \<Rightarrow> real \<Rightarrow> real \<Rightarrow> canvas \<Rightarrow> canvas" where
  "fillRect x y w h ctx = ctx\<lparr>drawn := drawn ctx @ [FillRect (fillStyle ctx) x y w h]\<rparr>"

definition fillText :: "js_string \<Rightarrow> real \<Rightarrow> real \<Rightarrow> canvas \<Rightarrow> canvas" where
  "fillText text x y ctx = ctx\<lparr>drawn := drawn ctx @ [FillText (fillStyle ctx) text x y]\<rparr>"

text \<open>The arrow glyph of line 105, U+2192.\<close>

definition arrow :: js_string where
  "arrow = [0x2192]"

text \<open>The body of the loop over the content lines, lines 99 to 115.\<close>

definition drawLine ::
  "text_metrics \<Rightarrow> int \<Rightarrow> js_string \<Rightarrow> nat \<Rightarrow> real \<Rightarrow> canvas \<Rightarrow> canvas" where
  "drawLine measureText startLine line i yPosition ctx =
     (let lineNum = startLine + int i;
          lineNumStr = padStart (String lineNum) 5 (js '' '');
          ctx1 = ctx\<lparr>fillStyle := LINE_NUMBER_COLOR\<rparr>;
          ctx2 = fillText (lineNumStr @ arrow) (real_of_int PADDING) yPosition ctx1;
          lineColor = getLineColor line;
          ctx3 = ctx2\<lparr>fillStyle := lineColor\<rparr>;
          lineNumberWidth = measureText (font ctx3) (lineNumStr @ arrow @ js '' '')
      in fillText line (real_of_int PADDING + lineNumberWidth) yPosition ctx3)"

text \<open>
  The loop \<open>for (let i = 0; i < pageLines.length; i++)\<close>: the lines still to draw,
  the index \<open>i\<close> of the first of them and the current \<open>yPosition\<close>.
\<close>

fun drawLines ::
  "text_metrics \<Rightarrow> int \<Rightarrow> int \<Rightarrow> js_string list \<Rightarrow> nat \<Rightarrow> real \<Rightarrow> canvas \<Rightarrow> canvas" where
  "drawLines measureText startLine lineHeight [] i yPosition ctx = ctx"
| "drawLines measureText startLine lineHeight (line # rest) i yPosition ctx =
     drawLines measureText startLine lineHeight rest (Suc i)
       (yPosition + real_of_int lineHeight)
       (drawLine measureText startLine line i yPosition ctx)"

text \<open>Lines 56 and 57. The product with 1.6 is taken exactly, not in floating point.\<close>

definition lineHeightOf :: "int \<Rightarrow> int" where
  "lineHeightOf fontSize = \<lfloor>real_of_int fontSize * LINE_HEIGHT_MULTIPLIER\<rfloor>"

definition imageHeightOf :: "int \<Rightarrow> int \<Rightarrow> int" where
  "imageHeightOf fontSize linesPerPage =
     PADDING * 2 + lineHeightOf fontSize * (linesPerPage + 2)"

text \<open>The body of the loop over the pages, lines 73 to 116, up to the finished canvas.\<close>

definition renderPage ::
  "text_metrics \<Rightarrow> int \<Rightarrow> int \<Rightarrow> int \<Rightarrow> int \<Rightarrow> nat \<Rightarrow> js_string list \<Rightarrow> canvas" where
  "renderPage measureText linesPerPage fontSize imageWidth totalPages pageNum pageLines =
     (let lineHeight = lineHeightOf fontSize;
          imageHeight = imageHeightOf fontSize linesPerPage;
          currentPage = int pageNum + 1;
          ctx0 = createCanvas imageWidth imageHeight;
          ctx1 = fillRect 0 0 (real_of_int imageWidth) (real_of_int imageHeight)
                   (ctx0\<lparr>fillStyle := BG_COLOR\<rparr>);
          ctx2 = ctx1\<lparr>font := String fontSize @ js ''px Monaco, '' @ [0x22] @
                                js ''Courier New'' @ [0x22] @ js '', monospace''\<rparr>;
          ctx3 = ctx2\<lparr>fillStyle := LINE_NUMBER_COLOR\<rparr>;
          header = js ''API Documentation - Page '' @ String currentPage @ js ''/'' @
                   String totalPages;
          ctx4 = fillText header (real_of_int PADDING) (real_of_int (PADDING + fontSize)) ctx3;
          yPosition = real_of_int (PADDING + lineHeight * 2);
          startLine = startLineNum (int pageNum) linesPerPage
      in drawLines measureText startLine lineHeight pageLines 0 yPosition ctx4)"

text \<open>
  A text metric for the examples: a fixed-pitch font in which every code unit is 10
  pixels wide.
\<close>

definition fixedPitch :: text_metrics where
  "fixedPitch f text = 10 * real (length text)"

section \<open>generator.ts: generateImages\<close>

text \<open>
  \<open>path.join\<close>, \<open>path.resolve\<close> (which reads the current working directory) and
  \<open>path.relative\<close> belong to the runtime, not to this program; they are parameters.
\<close>

record path_module =
  resolve :: "js_string \<Rightarrow> js_string \<Rightarrow> js_string"
  join :: "js_string \<Rightarrow> js_string \<Rightarrow> js_string"
  relative :: "js_string \<Rightarrow> js_string \<Rightarrow> js_string"

text \<open>
  Line 60, \<open>Math.ceil(lines.length / linesPerPage)\<close>, with the quotient taken exactly.
\<close>

definition totalPagesOf :: "'a list \<Rightarrow> int \<Rightarrow> int" where
  "totalPagesOf doc linesPerPage = \<lceil>real (length doc) / real_of_int linesPerPage\<rceil>"

text \<open>
  The result of \<open>generateImages\<close> is the sequence of files it writes, each with its
  path and the canvas that is encoded into it; \<open>None\<close> when the pagination loop does
  not return. Console output is left out.
\<close>

definition generateImages ::
  "path_module \<Rightarrow> text_metrics \<Rightarrow> js_string list \<Rightarrow> js_string \<Rightarrow> int \<Rightarrow> int \<Rightarrow> int \<Rightarrow>
   (js_string \<times> canvas) list option" where
  "generateImages P measureText doc outputDir linesPerPage fontSize imageWidth =
     (let totalPages = totalPagesOf doc linesPerPage
      in case paginate doc linesPerPage of
           None \<Rightarrow> None
         | Some pages \<Rightarrow>
             Some (map (\<lambda>pageNum.
                     (join P outputDir (filename pageNum),
                      renderPage measureText linesPerPage fontSize imageWidth totalPages
                        pageNum (pages ! pageNum)))
                   [0 ..< length pages]))"

text \<open>
  A path module for the examples: what the POSIX functions do on an absolute,
  normalised directory and on names without separators.
\<close>

definition examplePaths :: path_module where
  "examplePaths =
     \<lparr>resolve = (\<lambda>cwd p. if startsWith p (js ''/'') then p else cwd @ js ''/'' @ p),
      join = (\<lambda>d f. d @ js ''/'' @ f),
      relative = (\<lambda>from to. if startsWith to (from @ js ''/'')
                               then drop (length from + 1) to else to)\<rparr>"

section \<open>index.ts: the convert command\<close>

text \<open>
  \<open>content.split('\n')\<close>, line 36: the pieces of the content between line feeds.
  The split of any string, the empty one too, has at least one piece.
\<close>

fun js_split :: "js_string \<Rightarrow> code_unit \<Rightarrow> js_string list" where
  "js_split [] sep = [[]]"
| "js_split (c # cs) sep =
     (if c = sep then [] # js_split cs sep
      else (c # hd (js_split cs sep)) # tl (js_split cs sep))"

definition LF :: code_unit where
  "LF = 0x0A"

text \<open>The density presets of lines 42 to 46, as (linesPerPage, fontSize).\<close>

definition densityPresets :: "(string \<times> int \<times> int) list" where
  "densityPresets = [(''high'', 100, 12), (''medium'', 80, 14), (''low'', 60, 16)]"

text \<open>
  The convert action from the content read from the file to the written images: the
  content is split into lines and handed to \<open>generateImages\<close>.
\<close>

definition convert ::
  "path_module \<Rightarrow> text_metrics \<Rightarrow> js_string \<Rightarrow> js_string \<Rightarrow> int \<Rightarrow> int \<Rightarrow> int \<Rightarrow>
   (js_string \<times> canvas) list option" where
  "convert P measureText content outputDir linesPerPage fontSize imageWidth =
     (let doc = js_split content LF
      in generateImages P measureText doc outputDir linesPerPage fontSize imageWidth)"

section \<open>docload.ts: the Image Reference Builder and its wrapper\<close>

text \<open>
  The part of the file system that the script reads: a path names nothing, a file that
  is not a directory, or a directory; \<open>readdirSync\<close> on a directory throws an error
  with a message or returns the names of the entries.
\<close>

datatype fs_node = File | Directory "js_string + js_string list"

type_synonym file_system = "js_string \<Rightarrow> fs_node option"

definition existsSync :: "file_system \<Rightarrow> js_string \<Rightarrow> bool" where
  "existsSync fs p \<longleftrightarrow> fs p \<noteq> None"

text \<open>\<open>statSync(p).isDirectory()\<close>\<close>

definition isDirectory :: "file_system \<Rightarrow> js_string \<Rightarrow> bool" where
  "isDirectory fs p \<longleftrightarrow> (case fs p of Some (Directory _) \<Rightarrow> True | _ \<Rightarrow> False)"

definition readdirSync :: "file_system \<Rightarrow> js_string \<Rightarrow> js_string + js_string list" where
  "readdirSync fs p =
     (case fs p of
        Some (Directory r) \<Rightarrow> r
      | Some File \<Rightarrow> Inl (js ''ENOTDIR: not a directory'')
      | None \<Rightarrow> Inl (js ''ENOENT: no such file or directory''))"

text \<open>
  Each error is a message on the error stream followed by \<open>process.exit(1)\<close>, at lines
  35, 45, 51, 64 and 70 of the script.
\<close>

datatype docload_error =
    ImagesFlagWithoutValue
  | DirectoryNotFound js_string
  | NotADirectory js_string
  | ReadDirectoryError js_string
  | NoImagesFound js_string

text \<open>
  The script ends in \<open>process.exit\<close> with a code after an error message, or it
  spawns a command with arguments and hands its exit code on.
\<close>

datatype outcome = Exit int docload_error | Spawn js_string "js_string list"

definition helpFlags :: "js_string list" where
  "helpFlags = [js ''--help'', js ''-h'']"

text \<open>The test of line 29: \<open>arg => arg === '--images' || arg === '-i'\<close>.\<close>

definition isImagesFlag :: "js_string \<Rightarrow> bool" where
  "isImagesFlag arg \<longleftrightarrow> arg = js ''--images'' \<or> arg = js ''-i''"

text \<open>The filter of line 60: \<open>file => file.toLowerCase().endsWith('.png')\<close>.\<close>

definition isPngFile :: "js_string \<Rightarrow> bool" where
  "isPngFile file \<longleftrightarrow> endsWith (toLowerCase file) (js ''.png'')"

text \<open>Lines 59 to 62, from the names that \<open>readdirSync\<close> returned.\<close>

definition pngFiles :: "path_module \<Rightarrow> js_string \<Rightarrow> js_string list \<Rightarrow> js_string list" where
  "pngFiles P imageDirPath files =
     sort (map (\<lambda>file. join P imageDirPath file) (filter isPngFile files))"

text \<open>Lines 77 to 80.\<close>

definition relativePaths :: "path_module \<Rightarrow> js_string \<Rightarrow> js_string list \<Rightarrow> js_string list" where
  "relativePaths P cwd pngs = map (\<lambda>file. js ''@'' @ relative P cwd file) pngs"

text \<open>Line 83.\<close>

definition systemPrompt :: "path_module \<Rightarrow> js_string \<Rightarrow> js_string list \<Rightarrow> js_string" where
  "systemPrompt P cwd pngs = array_join (relativePaths P cwd pngs) (js '' '')"

text \<open>
  Lines 40 to 83: from the directory given (or the default one) to the reference string,
  or to the error that ends the script.
\<close>

definition imageReferences ::
  "path_module \<Rightarrow> file_system \<Rightarrow> js_string \<Rightarrow> js_string \<Rightarrow> docload_error + js_string" where
  "imageReferences P fs cwd imagesDir =
     (let imageDirPath = resolve P cwd imagesDir in
      if \<not> existsSync fs imageDirPath then Inl (DirectoryNotFound imageDirPath)
      else if \<not> isDirectory fs imageDirPath then Inl (NotADirectory imageDirPath)
      else case readdirSync fs imageDirPath of
             Inl message \<Rightarrow> Inl (ReadDirectoryError message)
           | Inr files \<Rightarrow>
               (let pngs = pngFiles P imageDirPath files in
                if length pngs = 0 then Inl (NoImagesFound imageDirPath)
                else Inr (systemPrompt P cwd pngs)))"

text \<open>Lines 86 to 98.\<close>

definition claudeArgs :: "js_string list \<Rightarrow> int \<Rightarrow> js_string \<Rightarrow> js_string list" where
  "claudeArgs args imagesIndex prompt =
     (if imagesIndex \<noteq> - 1
      then js_slice args 0 imagesIndex @ js_slice_from args (imagesIndex + 2)
      else args) @
     [js ''--append-system-prompt'', prompt]"

text \<open>The whole script, from the command-line arguments to its end.\<close>

definition docload ::
  "path_module \<Rightarrow> file_system \<Rightarrow> js_string \<Rightarrow> js_string list \<Rightarrow> outcome" where
  "docload P fs cwd args =
     (if list_ex (\<lambda>arg. arg \<in> set helpFlags) args then Spawn (js ''claude'') args
      else
        let imagesIndex = findIndex isImagesFlag args in
        if imagesIndex \<noteq> - 1 \<and> \<not> imagesIndex + 1 < int (length args)
        then Exit 1 ImagesFlagWithoutValue
        else
          let imagesDir = (if imagesIndex \<noteq> - 1 then args ! nat (imagesIndex + 1)
                           else js ''docshot'')
          in case imageReferences P fs cwd imagesDir of
               Inl err \<Rightarrow> Exit 1 err
             | Inr prompt \<Rightarrow> Spawn (js ''claude'') (claudeArgs args imagesIndex prompt))"

text \<open>
  A file system for the examples: the directory \<open>/work/docshot\<close> holds two pages
  and a text file, \<open>/work/shots\<close> holds exactly the two pages,
  \<open>/work/notes.md\<close> is a file, \<open>/work/empty\<close> is a directory without entries.
\<close>

definition exampleFs :: file_system where
  "exampleFs p =
     (if p = js ''/work/docshot''
        then Some (Directory (Inr [js ''page_002.png'', js ''notes.txt'', js ''page_001.png'']))
      else if p = js ''/work/shots''
        then Some (Directory (Inr [js ''page_002.png'', js ''page_001.png'']))
      else if p = js ''/work/empty'' then Some (Directory (Inr []))
      else if p = js ''/work/notes.md'' then Some File
      else None)"

section \<open>Properties of the Paginator\<close>

lemma js_slice_window:
  assumes "0 \<le> i" "0 \<le> L"
  shows "js_slice xs i (i + L) = take (nat L) (drop (nat i) xs)"
proof -
  let ?n = "int (length xs)"
  have "take (nat (min (i + L) ?n - min i ?n)) (drop (nat (min i ?n)) xs)
        = take (nat L) (drop (nat i) xs)"
  proof (cases "i \<le> ?n")
    case True
    then have a: "min i ?n = i" by simp
    show ?thesis
    proof (cases "i + L \<le> ?n")
      case True
      with a assms show ?thesis by simp
    next
      case False
      then have "min (i + L) ?n = ?n" by simp
      moreover have "length (drop (nat i) xs) = nat (?n - i)"
        using assms True by (simp add: nat_diff_distrib)
      moreover have "nat (?n - i) \<le> nat L" using False assms by simp
      ultimately show ?thesis using a by simp
    qed
  next
    case False
    then show ?thesis using assms by simp
  qed
  then show ?thesis using assms by (simp add: js_slice_def Let_def)
qed

lemma page_count_bounds:
  fixes N l :: nat
  assumes "0 < l"
  defines "m \<equiv> (N + l - 1) div l"
  shows "N \<le> m * l" and "m * l < N + l"
proof -
  have e: "m * l + (N + l - 1) mod l = N + l - 1"
    unfolding m_def by (simp add: div_mult_mod_eq)
  have r: "(N + l - 1) mod l < l" using assms by simp
  show "N \<le> m * l" using e r by linarith
  show "m * l < N + l" using e assms by linarith
qed

lemma ceiling_page_count:
  fixes N l :: nat
  assumes "0 < l"
  shows "\<lceil>real N / real l\<rceil> = int ((N + l - 1) div l)"
proof (rule ceiling_unique)
  let ?m = "(N + l - 1) div l"
  have a: "N \<le> ?m * l" and b: "?m * l < N + l"
    using page_count_bounds [OF assms, of N] by simp_all
  have "real (?m * l) < real (N + l)" using b by (simp only: of_nat_less_iff)
  then have "(real ?m - 1) * real l < real N" by (simp add: algebra_simps)
  then show "real_of_int (int ?m) - 1 < real N / real l"
    using assms by (simp add: pos_less_divide_eq)
  have "real N \<le> real (?m * l)" using a by (simp only: of_nat_le_iff)
  then show "real N / real l \<le> real_of_int (int ?m)"
    using assms by (simp add: pos_divide_le_eq)
qed

lemma paginate_loop_closed:
  assumes "0 < l"
  shows "paginate_loop lines (int l) (int (j * l)) pages =
         Some (pages @ map (\<lambda>k. take l (drop (k * l) lines))
                           [j ..< (length lines + l - 1) div l])"
proof (induction "(length lines + l - 1) div l - j" arbitrary: j pages)
  case 0
  then have le: "(length lines + l - 1) div l \<le> j" by simp
  then have "((length lines + l - 1) div l) * l \<le> j * l" by simp
  then have "length lines \<le> j * l"
    using page_count_bounds(1) [OF assms, of "length lines"] by linarith
  then have "\<not> int (j * l) < int (length lines)"
    by (simp only: of_nat_less_iff not_less)
  then show ?case using le
    by (subst paginate_loop.simps) (simp only: if_False upt_conv_Nil list.map append_Nil2)
next
  case (Suc n)
  let ?m = "(length lines + l - 1) div l"
  from Suc.hyps(2) have jm: "j < ?m" by simp
  then have "Suc j \<le> ?m" by simp
  then have "Suc j * l \<le> ?m * l" by (simp only: mult_le_mono1)
  then have "j * l < length lines"
    using page_count_bounds(2) [OF assms, of "length lines"] by simp
  then have lt: "int (j * l) < int (length lines)" by (simp only: of_nat_less_iff)
  have n: "n = ?m - Suc j" using Suc.hyps(2) by simp
  have nxt: "int (j * l) + int l = int (Suc j * l)" by simp
  have sl: "js_slice lines (int (j * l)) (int (Suc j * l)) = take l (drop (j * l) lines)"
    unfolding nxt [symmetric]
    using js_slice_window [of "int (j * l)" "int l" lines]
    by (simp only: of_nat_0_le_iff nat_int)
  have "paginate_loop lines (int l) (int (j * l)) pages =
        paginate_loop lines (int l) (int (Suc j * l)) (pages @ [take l (drop (j * l) lines)])"
    by (subst paginate_loop.simps) (simp only: lt if_True nxt sl)
  also have "\<dots> = Some ((pages @ [take l (drop (j * l) lines)]) @
                 map (\<lambda>k. take l (drop (k * l) lines)) [Suc j ..< ?m])"
    by (rule Suc.hyps(1) [OF n])
  also have "\<dots> = Some (pages @ map (\<lambda>k. take l (drop (k * l) lines)) [j ..< ?m])"
    using jm by (simp add: upt_conv_Cons)
  finally show ?case .
qed

lemma concat_windows:
  "concat (map (\<lambda>k. take l (drop (k * l) xs)) [0..<m]) = take (m * l) xs"
proof (induction m)
  case 0
  show ?case by simp
next
  case (Suc m)
  have "take (m * l + l) xs = take (m * l) xs @ take l (drop (m * l) xs)"
    by (rule take_add)
  with Suc show ?case by (simp add: add.commute)
qed

text \<open>
  The closed form of the Paginator for a positive page size: it returns, and its pages
  are the windows of \<open>l\<close> lines at the offsets \<open>0, l, 2 l, \<dots>\<close>.
\<close>

lemma paginate_closed:
  assumes "0 < L"
  shows "paginate lines L =
         Some (map (\<lambda>k. take (nat L) (drop (k * nat L) lines))
                   [0 ..< (length lines + nat L - 1) div nat L])"
proof -
  have l: "0 < nat L" using assms by simp
  have "paginate_loop lines (int (nat L)) (int (0 * nat L)) [] =
        Some ([] @ map (\<lambda>k. take (nat L) (drop (k * nat L) lines))
                         [0 ..< (length lines + nat L - 1) div nat L])"
    by (rule paginate_loop_closed [OF l])
  then show ?thesis using assms by (simp add: paginate_def)
qed

lemma page_offset_in_range:
  fixes N l i :: nat
  assumes "0 < l" "i < (N + l - 1) div l"
  shows "i * l < N"
proof -
  have "Suc i \<le> (N + l - 1) div l" using assms(2) by simp
  then have "Suc i * l \<le> ((N + l - 1) div l) * l" by (simp only: mult_le_mono1)
  then show ?thesis using page_count_bounds(2) [OF assms(1), of N] by simp
qed

text \<open>
  C1. For a Document of N lines and a page size L > 0 the Paginator returns exactly
  ceil(N/L) pages; page i (0-based) is the contiguous block of at most L lines that
  starts at the 1-based line i*L + 1 (the \<open>startLineNum\<close> of the renderer), it is
  not empty, and the concatenation of the pages in index order is the Document itself,
  so no line is duplicated or dropped.
\<close>

theorem paginator_pages:
  assumes "0 < L"
  shows "\<exists>pages. paginate lines L = Some pages \<and>
           int (length pages) = \<lceil>real (length lines) / real_of_int L\<rceil> \<and>
           (\<forall>i < length pages.
               pages ! i = take (nat L) (drop (i * nat L) lines) \<and>
               pages ! i \<noteq> [] \<and>
               startLineNum (int i) L = int (i * nat L) + 1 \<and>
               hd (pages ! i) = lines ! nat (startLineNum (int i) L - 1)) \<and>
           concat pages = lines"
proof -
  let ?l = "nat L"
  let ?m = "(length lines + ?l - 1) div ?l"
  let ?pages = "map (\<lambda>k. take ?l (drop (k * ?l) lines)) [0 ..< ?m]"
  have l: "0 < ?l" using assms by simp
  have L: "int ?l = L" using assms by simp
  have p: "paginate lines L = Some ?pages" by (rule paginate_closed [OF assms])
  have "\<lceil>real (length lines) / real ?l\<rceil> = int ?m" by (rule ceiling_page_count [OF l])
  moreover have "real ?l = real_of_int L" using assms by simp
  ultimately have c: "int (length ?pages) = \<lceil>real (length lines) / real_of_int L\<rceil>"
    by simp
  have q: "?pages ! i = take ?l (drop (i * ?l) lines) \<and> ?pages ! i \<noteq> [] \<and>
           startLineNum (int i) L = int (i * ?l) + 1 \<and>
           hd (?pages ! i) = lines ! nat (startLineNum (int i) L - 1)"
    if "i < length ?pages" for i
  proof -
    from that have im: "i < ?m" by simp
    then have e: "?pages ! i = take ?l (drop (i * ?l) lines)" by simp
    have r: "i * ?l < length lines" by (rule page_offset_in_range [OF l im])
    then have ne: "drop (i * ?l) lines \<noteq> []" by simp
    then have n: "?pages ! i \<noteq> []" using l e by simp
    have s: "startLineNum (int i) L = int (i * ?l) + 1"
      using L by (simp add: startLineNum_def)
    have "hd (take ?l (drop (i * ?l) lines)) = lines ! (i * ?l)"
      using l r by (simp add: hd_drop_conv_nth)
    moreover have "nat (startLineNum (int i) L - 1) = i * ?l"
      by (simp only: s add_diff_cancel_right' nat_int)
    ultimately have "hd (?pages ! i) = lines ! nat (startLineNum (int i) L - 1)"
      using e by simp
    with e n s show ?thesis by blast
  qed
  have "concat ?pages = take (?m * ?l) lines" by (rule concat_windows)
  moreover have "length lines \<le> ?m * ?l" by (rule page_count_bounds(1) [OF l])
  ultimately have k: "concat ?pages = lines" by simp
  from p c q k show ?thesis by blast
qed

theorem paginator_pages_witness:
  "(0::int) < 2 \<and>
   (\<exists>pages. paginate [10, 20, 30, 40, 50 :: nat] 2 = Some pages \<and>
      int (length pages) = \<lceil>real (length [10, 20, 30, 40, 50 :: nat]) / real_of_int 2\<rceil> \<and>
      (\<forall>i < length pages.
          pages ! i = take (nat 2) (drop (i * nat 2) [10, 20, 30, 40, 50]) \<and>
          pages ! i \<noteq> [] \<and>
          startLineNum (int i) 2 = int (i * nat 2) + 1 \<and>
          hd (pages ! i) = [10, 20, 30, 40, 50] ! nat (startLineNum (int i) 2 - 1)) \<and>
      concat pages = [10, 20, 30, 40, 50])"
proof -
  have h: "(0::int) < 2" by simp
  show ?thesis by (rule conjI [OF h paginator_pages [OF h]])
qed

text \<open>
  C2. For a page size L >= 1 the Paginator returns, every page but the last has exactly
  L lines, and the last page, when there is one, has between 1 and L lines.
\<close>

theorem page_sizes:
  assumes "1 \<le> L"
  shows "\<exists>pages. paginate lines L = Some pages \<and>
           (\<forall>i. Suc i < length pages \<longrightarrow> int (length (pages ! i)) = L) \<and>
           (pages \<noteq> [] \<longrightarrow>
              1 \<le> length (last pages) \<and> int (length (last pages)) \<le> L)"
proof -
  let ?l = "nat L"
  let ?m = "(length lines + ?l - 1) div ?l"
  let ?pages = "map (\<lambda>k. take ?l (drop (k * ?l) lines)) [0 ..< ?m]"
  have pos: "0 < L" using assms by simp
  have l: "0 < ?l" using assms by simp
  have p: "paginate lines L = Some ?pages" by (rule paginate_closed [OF pos])
  have len: "length (?pages ! i) = min (length lines - i * ?l) ?l" if "i < ?m" for i
    using that by simp
  have full: "int (length (?pages ! i)) = L" if "Suc i < length ?pages" for i
  proof -
    from that have s: "Suc i < ?m" by simp
    have "Suc i * ?l < length lines" by (rule page_offset_in_range [OF l s])
    then have "?l \<le> length lines - i * ?l" by simp
    moreover have "i < ?m" using s by simp
    ultimately have "length (?pages ! i) = ?l" using len by simp
    then show ?thesis using pos by simp
  qed
  have lst: "1 \<le> length (last ?pages) \<and> int (length (last ?pages)) \<le> L" if "?pages \<noteq> []"
  proof -
    from that have m: "0 < ?m" by simp
    then have i: "?m - 1 < ?m" by simp
    have "last ?pages = ?pages ! (?m - 1)" using that by (simp add: last_conv_nth)
    then have e: "length (last ?pages) = min (length lines - (?m - 1) * ?l) ?l"
      using len [OF i] by simp
    have "(?m - 1) * ?l < length lines" by (rule page_offset_in_range [OF l i])
    then have "0 < length lines - (?m - 1) * ?l" by (simp only: zero_less_diff)
    then have "0 < min (length lines - (?m - 1) * ?l) ?l"
      using l by (simp only: min_less_iff_conj)
    then have "1 \<le> length (last ?pages)"
      unfolding e by (simp only: One_nat_def Suc_le_eq)
    moreover have "length (last ?pages) \<le> ?l" unfolding e by (rule min.cobounded2)
    then have "int (length (last ?pages)) \<le> int ?l" by (simp only: of_nat_le_iff)
    then have "int (length (last ?pages)) \<le> L" using pos by simp
    ultimately show ?thesis by simp
  qed
  from p full lst show ?thesis by blast
qed

theorem page_sizes_witness:
  "(1::int) \<le> 2 \<and>
   (\<exists>pages. paginate [10, 20, 30, 40, 50 :: nat] 2 = Some pages \<and>
      (\<forall>i. Suc i < length pages \<longrightarrow> int (length (pages ! i)) = 2) \<and>
      (pages \<noteq> [] \<longrightarrow>
         1 \<le> length (last pages) \<and> int (length (last pages)) \<le> 2))"
proof -
  have h: "(1::int) \<le> 2" by simp
  show ?thesis by (rule conjI [OF h page_sizes [OF h]])
qed

section \<open>Properties of the Line Classifier\<close>

lemma regex_test_LineStart:
  "regex_test (Seq LineStart r) s \<longleftrightarrow> rmatch r s 0 \<noteq> []"
proof -
  have "rmatch (Seq LineStart r) s i = (if i = 0 then rmatch r s 0 else [])" for i
    by simp
  then have "regex_test (Seq LineStart r) s \<longleftrightarrow>
             (\<exists>i \<in> set [0 ..< Suc (length s)]. i = 0 \<and> rmatch r s 0 \<noteq> [])"
    by (simp add: regex_test_def list_ex_iff)
  also have "\<dots> \<longleftrightarrow> rmatch r s 0 \<noteq> []" by auto
  finally show ?thesis .
qed

lemma set_rmatch_alternation:
  "ws \<noteq> [] \<Longrightarrow>
   set (rmatch (alternation (map Chars ws)) s i) =
   {i + length w | w. w \<in> set ws \<and> take (length w) (drop i s) = w}"
proof (induction ws)
  case Nil
  then show ?case by simp
next
  case (Cons w ws)
  show ?case
  proof (cases ws)
    case Nil
    then show ?thesis by auto
  next
    case (Cons v vs)
    then have "ws \<noteq> []" by simp
    from Cons.IH [OF this] Cons show ?thesis by auto
  qed
qed

lemma rmatch_Seq_WordBoundary:
  "rmatch (Seq a WordBoundary) s i \<noteq> [] \<longleftrightarrow>
   (\<exists>e \<in> set (rmatch a s i). isWordCharAt s (int e - 1) \<noteq> isWordCharAt s (int e))"
  by auto

lemma keyword_boundary:
  assumes "w \<noteq> []" "isWordChar (last w)" "startsWith s w"
  shows "(isWordCharAt s (int (length w) - 1) \<noteq> isWordCharAt s (int (length w))) \<longleftrightarrow>
         (length s = length w \<or> \<not> isWordChar (s ! length w))"
proof -
  have t: "take (length w) s = w" using assms(3) by (simp add: startsWith_def)
  have "length (take (length w) s) = min (length s) (length w)" by simp
  then have le: "length w \<le> length s" unfolding t by simp
  have pos: "0 < length w" using assms(1) by simp
  have "s ! (length w - 1) = take (length w) s ! (length w - 1)" using pos by simp
  also have "\<dots> = last w" using t assms(1) by (simp add: last_conv_nth)
  finally have "isWordChar (s ! (length w - 1))" using assms(2) by simp
  moreover have "nat (int (length w) - 1) = length w - 1" by simp
  ultimately have a: "isWordCharAt s (int (length w) - 1)"
    using pos le by (simp add: isWordCharAt_def)
  have b: "isWordCharAt s (int (length w)) \<longleftrightarrow> length w < length s \<and> isWordChar (s ! length w)"
    by (simp add: isWordCharAt_def)
  show ?thesis using a b le by auto
qed

lemma keywords_end_in_word_char:
  "\<forall>w \<in> set (map js spec_keywords). w \<noteq> [] \<and> isWordChar (last w)"
  by (simp add: spec_keywords_def js_def isWordChar_def)

lemma keywordPattern_alternatives:
  "keywordPattern =
     Seq LineStart (Seq (alternation (map Chars (map js spec_keywords))) WordBoundary)"
  by (simp add: keywordPattern_def spec_keywords_def)

lemma keywordPattern_test:
  "regex_test keywordPattern s \<longleftrightarrow> list_ex (\<lambda>w. whole_word_prefix (js w) s) spec_keywords"
proof -
  let ?ws = "map js spec_keywords"
  have ne: "?ws \<noteq> []" by (simp add: spec_keywords_def)
  have "regex_test keywordPattern s \<longleftrightarrow>
        (\<exists>e \<in> set (rmatch (alternation (map Chars ?ws)) s 0).
            isWordCharAt s (int e - 1) \<noteq> isWordCharAt s (int e))"
    unfolding keywordPattern_alternatives regex_test_LineStart rmatch_Seq_WordBoundary ..
  also have "\<dots> \<longleftrightarrow>
        (\<exists>w \<in> set ?ws. startsWith s w \<and>
            isWordCharAt s (int (length w) - 1) \<noteq> isWordCharAt s (int (length w)))"
    unfolding set_rmatch_alternation [OF ne] by (auto simp: startsWith_def)
  also have "\<dots> \<longleftrightarrow> (\<exists>w \<in> set ?ws. whole_word_prefix w s)"
    using keywords_end_in_word_char keyword_boundary
    unfolding whole_word_prefix_def by blast
  also have "\<dots> \<longleftrightarrow> list_ex (\<lambda>w. whole_word_prefix (js w) s) spec_keywords"
    by (simp add: list_ex_iff)
  finally show ?thesis .
qed

text \<open>
  C3. The Line Classifier is a function of the line alone and applies the rules in
  priority order: a trimmed line that starts with \<open>#\<close> or \<open>//\<close> gets the comment
  colour; otherwise a trimmed line that starts with one of the seventeen keywords as a
  whole-word prefix gets the keyword colour; otherwise the line gets the default colour.
  The three colours are different, so the colour tells the category.
\<close>

theorem getLineColor_classifies:
  "getLineColor line = categoryColor (classify_spec line) \<and>
   distinct [COMMENT_COLOR, KEYWORD_COLOR, TEXT_COLOR]"
proof
  show "getLineColor line = categoryColor (classify_spec line)"
    by (simp add: getLineColor_def classify_spec_def keywordPattern_test Let_def)
  show "distinct [COMMENT_COLOR, KEYWORD_COLOR, TEXT_COLOR]"
    by (simp add: COMMENT_COLOR_def KEYWORD_COLOR_def TEXT_COLOR_def js_def)
qed

lemma classify_spec_examples:
  "classify_spec (js ''# comment'') = CommentCategory"
  "classify_spec (js ''  // also comment'') = CommentCategory"
  "classify_spec (js ''const x = 1'') = KeywordCategory"
  "classify_spec (js ''plain text'') = DefaultCategory"
  by (simp_all add: classify_spec_def js_def js_trim_def isWhiteSpace_def startsWith_def
        spec_keywords_def whole_word_prefix_def isWordChar_def)

theorem getLineColor_classifies_witness:
  "getLineColor (js ''# comment'') = COMMENT_COLOR \<and>
   getLineColor (js ''  // also comment'') = COMMENT_COLOR \<and>
   getLineColor (js ''const x = 1'') = KEYWORD_COLOR \<and>
   getLineColor (js ''plain text'') = TEXT_COLOR"
proof -
  have "getLineColor (js ''# comment'') = categoryColor (classify_spec (js ''# comment''))"
    using getLineColor_classifies [of "js ''# comment''"] by (rule conjunct1)
  then have a: "getLineColor (js ''# comment'') = COMMENT_COLOR"
    by (simp only: classify_spec_examples categoryColor.simps)
  have "getLineColor (js ''  // also comment'') =
        categoryColor (classify_spec (js ''  // also comment''))"
    using getLineColor_classifies [of "js ''  // also comment''"] by (rule conjunct1)
  then have b: "getLineColor (js ''  // also comment'') = COMMENT_COLOR"
    by (simp only: classify_spec_examples categoryColor.simps)
  have "getLineColor (js ''const x = 1'') = categoryColor (classify_spec (js ''const x = 1''))"
    using getLineColor_classifies [of "js ''const x = 1''"] by (rule conjunct1)
  then have c: "getLineColor (js ''const x = 1'') = KEYWORD_COLOR"
    by (simp only: classify_spec_examples categoryColor.simps)
  have "getLineColor (js ''plain text'') = categoryColor (classify_spec (js ''plain text''))"
    using getLineColor_classifies [of "js ''plain text''"] by (rule conjunct1)
  then have d: "getLineColor (js ''plain text'') = TEXT_COLOR"
    by (simp only: classify_spec_examples categoryColor.simps)
  from a b c d show ?thesis by blast
qed

text \<open>
  C4. The markdown-header rule is unreachable: whatever the line, the \<open>return\<close> of the
  markdown-header branch is never the one executed, and every line whose trimmed content
  starts with \<open>#\<close> leaves through the comment branch with the comment colour.
\<close>

theorem markdown_header_branch_unreachable:
  "getLineColor line = branchColor (getLineColor_branch line) \<and>
   getLineColor_branch line \<noteq> MarkdownHeaderBranch \<and>
   (startsWith (js_trim line) (js ''#'') \<longrightarrow>
      getLineColor_branch line = CommentBranch \<and> getLineColor line = COMMENT_COLOR)"
  by (simp add: getLineColor_def getLineColor_branch_def Let_def)

theorem markdown_header_branch_unreachable_witness:
  "startsWith (js_trim (js ''# Title'')) (js ''#'') \<and>
   getLineColor_branch (js ''# Title'') = CommentBranch \<and>
   getLineColor (js ''# Title'') = COMMENT_COLOR \<and>
   getLineColor_branch (js ''# Title'') \<noteq> MarkdownHeaderBranch"
proof -
  have h: "startsWith (js_trim (js ''# Title'')) (js ''#'')"
    by (simp add: js_def js_trim_def isWhiteSpace_def startsWith_def)
  from markdown_header_branch_unreachable [of "js ''# Title''"] h show ?thesis by blast
qed

section \<open>Properties of the File Namer\<close>

lemma concat_replicate_single: "concat (replicate m [c]) = replicate m c"
  by (induction m) simp_all

lemma padStart_single: "padStart s n [c] = replicate (n - length s) c @ s"
  by (simp add: padStart_def concat_replicate_single)

lemma unat_digitChar:
  assumes "d < 10"
  shows "unat (digitChar d) = 48 + d"
proof -
  have "unat (word_of_nat (48 + d) :: 16 word) = (48 + d) mod 2 ^ LENGTH(16)"
    by (rule unat_of_nat)
  also have "\<dots> = 48 + d" using assms by simp
  finally show ?thesis by (simp only: digitChar_def)
qed

lemma replicate_two: "replicate 2 c = [c, c]"
  by (simp add: numeral_2_eq_2)

lemma digitValue_digitChar: "d < 10 \<Longrightarrow> digitValue (digitChar d) = d"
  by (simp add: digitValue_def unat_digitChar)

lemma digitChar_less: "x < 10 \<Longrightarrow> y < 10 \<Longrightarrow> digitChar x < digitChar y \<longleftrightarrow> x < y"
  by (simp add: word_less_nat_alt unat_digitChar)

lemma digitChar_eq: "x < 10 \<Longrightarrow> y < 10 \<Longrightarrow> digitChar x = digitChar y \<longleftrightarrow> x = y"
  by (metis digitValue_digitChar)

lemma parseDigits_snoc: "parseDigits (s @ [c]) = 10 * parseDigits s + digitValue c"
  by (simp add: parseDigits_def)

lemma parseDigits_decimalDigits: "parseDigits (decimalDigits n) = n"
proof (induction n rule: decimalDigits.induct)
  case (1 n)
  show ?case
  proof (cases "n < 10")
    case True
    then show ?thesis
      by (subst decimalDigits.simps) (simp add: parseDigits_def digitValue_digitChar)
  next
    case False
    then have "parseDigits (decimalDigits (n div 10)) = n div 10" by (rule "1.IH")
    then show ?thesis using False
      by (subst decimalDigits.simps) (simp add: parseDigits_snoc digitValue_digitChar)
  qed
qed

lemma parseDigits_zeros: "parseDigits (replicate m (digitChar 0) @ s) = parseDigits s"
proof (induction m)
  case 0
  show ?case by simp
next
  case (Suc m)
  have "foldl (\<lambda>a c. 10 * a + digitValue c) 0 (digitChar 0 # replicate m (digitChar 0) @ s) =
        foldl (\<lambda>a c. 10 * a + digitValue c) 0 (replicate m (digitChar 0) @ s)"
    by (simp add: digitValue_digitChar)
  with Suc show ?case by (simp add: parseDigits_def)
qed

lemma js_zero: "js ''0'' = [digitChar 0]"
  by (simp add: js_def digitChar_def)

lemma parseDigits_padded:
  "parseDigits (padStart (decimalDigits n) 3 (js ''0'')) = n"
  by (simp only: js_zero padStart_single parseDigits_zeros parseDigits_decimalDigits)

lemma String_nonneg: "String (int n + 1) = decimalDigits (Suc n)"
proof -
  have "nat (int n + 1) = Suc n" by simp
  then show ?thesis by (simp add: String_def)
qed

lemma filename_eq:
  "filename k = js ''page_'' @ padStart (decimalDigits (Suc k)) 3 (js ''0'') @ js ''.png''"
  by (simp only: filename_def Let_def String_nonneg)

lemma filename_inj: "filename a = filename b \<Longrightarrow> a = b"
proof -
  assume "filename a = filename b"
  then have "padStart (decimalDigits (Suc a)) 3 (js ''0'') =
             padStart (decimalDigits (Suc b)) 3 (js ''0'')"
    by (simp only: filename_eq same_append_eq append_same_eq)
  then have "parseDigits (padStart (decimalDigits (Suc a)) 3 (js ''0'')) =
             parseDigits (padStart (decimalDigits (Suc b)) 3 (js ''0''))"
    by (rule arg_cong)
  then show "a = b" by (simp only: parseDigits_padded Suc_inject)
qed

lemma decimalDigits_three:
  assumes "n < 1000"
  shows "padStart (decimalDigits n) 3 (js ''0'') =
         [digitChar (n div 100), digitChar (n div 10 mod 10), digitChar (n mod 10)]"
proof -
  consider "n < 10" | "10 \<le> n" "n < 100" | "100 \<le> n" "n < 1000"
    using assms by linarith
  then show ?thesis
  proof cases
    case 1
    then have "decimalDigits n = [digitChar n]" by (subst decimalDigits.simps) simp
    then show ?thesis using 1
      by (simp add: js_zero padStart_single replicate_two)
  next
    case 2
    then have a: "n div 10 < 10" by simp
    have "decimalDigits n = decimalDigits (n div 10) @ [digitChar (n mod 10)]"
      using 2 by (subst decimalDigits.simps) simp
    also have "decimalDigits (n div 10) = [digitChar (n div 10)]"
      using a by (subst decimalDigits.simps) simp
    finally have "decimalDigits n = [digitChar (n div 10), digitChar (n mod 10)]" by simp
    moreover have "n div 100 = 0" using 2 by simp
    moreover have "n div 10 mod 10 = n div 10" using a by simp
    ultimately show ?thesis
      by (simp add: js_zero padStart_single replicate_two)
  next
    case 3
    then have a: "\<not> n div 10 < 10" and b: "n div 10 div 10 < 10" by simp_all
    have c: "n div 10 div 10 = n div 100" by (simp add: div_mult2_eq)
    have "decimalDigits n = decimalDigits (n div 10) @ [digitChar (n mod 10)]"
      using 3 by (subst decimalDigits.simps) simp
    also have "decimalDigits (n div 10) =
               decimalDigits (n div 10 div 10) @ [digitChar (n div 10 mod 10)]"
      using a by (subst decimalDigits.simps) simp
    also have "decimalDigits (n div 10 div 10) = [digitChar (n div 10 div 10)]"
      using b by (subst decimalDigits.simps) simp
    finally have "decimalDigits n =
        [digitChar (n div 100), digitChar (n div 10 mod 10), digitChar (n mod 10)]"
      using c by simp
    then show ?thesis by (simp add: js_zero padStart_single)
  qed
qed

lemma append_less_cancel:
  fixes xs ys zs :: "('a::linorder) list"
  shows "xs @ ys < xs @ zs \<longleftrightarrow> ys < zs"
  by (induction xs) simp_all

lemma digits_lex_less:
  fixes a2 a1 a0 b2 b1 b0 :: nat
  assumes "100 * a2 + 10 * a1 + a0 < 100 * b2 + 10 * b1 + b0"
    and "a1 < 10" "a0 < 10" "b1 < 10" "b0 < 10"
  shows "a2 < b2 \<or> (a2 = b2 \<and> (a1 < b1 \<or> (a1 = b1 \<and> a0 < b0)))"
  using assms by linarith

lemma three_digits_value:
  fixes n :: nat
  shows "100 * (n div 100) + 10 * (n div 10 mod 10) + n mod 10 = n"
proof -
  have "n div 10 div 10 = n div 100" by (simp add: div_mult2_eq)
  then have "10 * (n div 100) + n div 10 mod 10 = n div 10"
    by (metis div_mult_mod_eq mult.commute)
  then have "10 * (10 * (n div 100) + n div 10 mod 10) + n mod 10 = n" by simp
  then show ?thesis by simp
qed

lemma padded_digits_less:
  assumes "a < b" "b < 1000"
  shows "padStart (decimalDigits a) 3 (js ''0'') @ sfx < padStart (decimalDigits b) 3 (js ''0'') @ sfx"
proof -
  have a: "a < 1000" using assms by simp
  have d: "a div 100 < 10" "a div 10 mod 10 < 10" "a mod 10 < 10"
          "b div 100 < 10" "b div 10 mod 10 < 10" "b mod 10 < 10"
    using a assms(2) by simp_all
  have "100 * (a div 100) + 10 * (a div 10 mod 10) + a mod 10
        < 100 * (b div 100) + 10 * (b div 10 mod 10) + b mod 10"
    using assms(1) by (simp only: three_digits_value)
  then have "a div 100 < b div 100 \<or> (a div 100 = b div 100 \<and>
        (a div 10 mod 10 < b div 10 mod 10 \<or> (a div 10 mod 10 = b div 10 mod 10 \<and> a mod 10 < b mod 10)))"
    using d by (intro digits_lex_less)
  then show ?thesis
    using d by (simp add: decimalDigits_three [OF a] decimalDigits_three [OF assms(2)]
                  digitChar_less digitChar_eq)
qed

lemma filename_strict_mono:
  assumes "a < b" "b < 999"
  shows "filename a < filename b"
proof -
  have "Suc a < Suc b" "Suc b < 1000" using assms by simp_all
  then have "padStart (decimalDigits (Suc a)) 3 (js ''0'') @ js ''.png''
           < padStart (decimalDigits (Suc b)) 3 (js ''0'') @ js ''.png''"
    by (rule padded_digits_less)
  then show ?thesis by (simp only: filename_eq append_less_cancel)
qed

lemma sorted_filenames:
  assumes "n \<le> 999"
  shows "sorted (map filename [0 ..< n])"
proof -
  have "map filename [0 ..< n] ! i \<le> map filename [0 ..< n] ! j"
    if "i \<le> j" "j < length (map filename [0 ..< n])" for i j
  proof (cases "i = j")
    case True
    then show ?thesis by simp
  next
    case False
    with that have "i < j" "j < 999" using assms by simp_all
    then have "filename i < filename j" by (rule filename_strict_mono)
    then show ?thesis using that by simp
  qed
  then show ?thesis by (simp only: sorted_iff_nth_mono) blast
qed

text \<open>
  C7. The File Namer maps the page ordinal k (0-based) to \<open>page_\<close>, then k + 1 in
  decimal with zeros in front up to three digits, then \<open>.png\<close>; for k < 999 these are
  exactly the three decimal digits of k + 1. The mapping is injective, and for every
  k < 999 the names of the pages 0..k, sorted as strings, are in page order.
\<close>

theorem filename_scheme:
  "(\<forall>k. filename k =
          js ''page_'' @ replicate (3 - length (decimalDigits (k + 1))) (digitChar 0) @
          decimalDigits (k + 1) @ js ''.png'') \<and>
   (\<forall>k < 999. filename k =
          js ''page_'' @ [digitChar ((k + 1) div 100), digitChar ((k + 1) div 10 mod 10),
                          digitChar ((k + 1) mod 10)] @ js ''.png'') \<and>
   inj filename \<and>
   (\<forall>k < 999. sort (map filename [0 ..< Suc k]) = map filename [0 ..< Suc k])"
proof (intro conjI allI impI)
  fix k
  show "filename k =
          js ''page_'' @ replicate (3 - length (decimalDigits (k + 1))) (digitChar 0) @
          decimalDigits (k + 1) @ js ''.png''"
    by (simp add: filename_eq js_zero padStart_single)
next
  fix k :: nat
  assume "k < 999"
  then have "Suc k < 1000" by simp
  then show "filename k =
          js ''page_'' @ [digitChar ((k + 1) div 100), digitChar ((k + 1) div 10 mod 10),
                          digitChar ((k + 1) mod 10)] @ js ''.png''"
    by (simp add: filename_eq decimalDigits_three)
next
  show "inj filename" by (rule injI) (rule filename_inj)
next
  fix k :: nat
  assume "k < 999"
  then have "Suc k \<le> 999" by simp
  then have "sorted (map filename [0 ..< Suc k])" by (rule sorted_filenames)
  then show "sort (map filename [0 ..< Suc k]) = map filename [0 ..< Suc k]"
    by (rule sort_key_id_if_sorted [where f = "\<lambda>x. x", simplified])
qed

theorem filename_scheme_witness:
  "(2::nat) < 999 \<and> filename 2 = js ''page_003.png'' \<and>
   sort (map filename [0 ..< Suc 2]) = map filename [0 ..< Suc 2]"
proof -
  have h: "(2::nat) < 999" by simp
  have "filename 2 =
          js ''page_'' @ [digitChar ((2 + 1) div 100), digitChar ((2 + 1) div 10 mod 10),
                          digitChar ((2 + 1) mod 10)] @ js ''.png''"
    using filename_scheme h by blast
  then have f: "filename 2 = js ''page_003.png''" by (simp add: js_def digitChar_def)
  have "sort (map filename [0 ..< Suc 2]) = map filename [0 ..< Suc 2]"
    using filename_scheme h by blast
  with h f show ?thesis by blast
qed

section \<open>Properties of the Page Renderer\<close>

lemma drawLine_drawn:
  "drawn (drawLine m start line i y ctx) =
     drawn ctx @
     [FillText LINE_NUMBER_COLOR (padStart (String (start + int i)) 5 (js '' '') @ arrow)
        (real_of_int PADDING) y,
      FillText (getLineColor line) line
        (real_of_int PADDING +
           m (font ctx) (padStart (String (start + int i)) 5 (js '' '') @ arrow @ js '' '')) y]"
  by (simp add: drawLine_def fillText_def Let_def)

lemma drawLine_font: "font (drawLine m start line i y ctx) = font ctx"
  by (simp add: drawLine_def fillText_def Let_def)

lemma drawLines_font: "font (drawLines m start lh ls i y ctx) = font ctx"
  by (induction ls arbitrary: i y ctx) (simp_all add: drawLine_font)

lemma drawLines_drawn:
  "drawn (drawLines m start lh ls i y ctx) =
     drawn ctx @
     concat (map (\<lambda>k.
       [FillText LINE_NUMBER_COLOR
          (padStart (String (start + int (i + k))) 5 (js '' '') @ arrow)
          (real_of_int PADDING) (y + real k * real_of_int lh),
        FillText (getLineColor (ls ! k)) (ls ! k)
          (real_of_int PADDING +
             m (font ctx) (padStart (String (start + int (i + k))) 5 (js '' '') @ arrow @ js '' ''))
          (y + real k * real_of_int lh)])
       [0 ..< length ls])"
proof (induction ls arbitrary: i y ctx)
  case Nil
  show ?case by simp
next
  case (Cons line rest)
  have u: "[0 ..< length (line # rest)] = 0 # map Suc [0 ..< length rest]"
    by (simp add: upt_conv_Cons map_Suc_upt del: upt_Suc)
  show ?case
    unfolding u drawLines.simps Cons.IH drawLine_drawn drawLine_font
    by (simp add: o_def algebra_simps)
qed

lemma concat_pairs_length: "length (concat (map (\<lambda>k. [a k, b k]) [0 ..< n])) = 2 * n"
  by (induction n) simp_all

lemma concat_pairs_nth:
  assumes "i < n"
  shows "concat (map (\<lambda>k. [a k, b k]) [0 ..< n]) ! (2 * i) = a i"
    and "concat (map (\<lambda>k. [a k, b k]) [0 ..< n]) ! (2 * i + 1) = b i"
  using assms
proof (induction n)
  case 0
  {
    case 1 then show ?case by simp
  next
    case 2 then show ?case by simp
  }
next
  case (Suc n)
  {
    case 1
    show ?case
    proof (cases "i < n")
      case True
      then have "2 * i < 2 * n" by simp
      then show ?thesis using Suc.IH(1) [OF True]
        by (simp add: nth_append concat_pairs_length)
    next
      case False
      with 1 have "i = n" by simp
      then show ?thesis by (simp add: nth_append concat_pairs_length)
    qed
  next
    case 2
    show ?case
    proof (cases "i < n")
      case True
      then have "2 * i + 1 < 2 * n" by simp
      then show ?thesis using Suc.IH(2) [OF True]
        by (simp add: nth_append concat_pairs_length)
    next
      case False
      with 2 have "i = n" by simp
      then show ?thesis by (simp add: nth_append concat_pairs_length)
    qed
  }
qed

lemma renderPage_drawn:
  "drawn (renderPage m L fontSize w totalPages pageNum pageLines) =
     [FillRect BG_COLOR 0 0 (real_of_int w) (real_of_int (imageHeightOf fontSize L)),
      FillText LINE_NUMBER_COLOR
        (js ''API Documentation - Page '' @ String (int pageNum + 1) @ js ''/'' @ String totalPages)
        (real_of_int PADDING) (real_of_int (PADDING + fontSize))] @
     concat (map (\<lambda>k.
       [FillText LINE_NUMBER_COLOR
          (padStart (String (startLineNum (int pageNum) L + int (0 + k))) 5 (js '' '') @ arrow)
          (real_of_int PADDING)
          (real_of_int (PADDING + lineHeightOf fontSize * 2) +
             real k * real_of_int (lineHeightOf fontSize)),
        FillText (getLineColor (pageLines ! k)) (pageLines ! k)
          (real_of_int PADDING +
             m (String fontSize @ js ''px Monaco, '' @ [0x22] @ js ''Courier New'' @ [0x22] @
                js '', monospace'')
               (padStart (String (startLineNum (int pageNum) L + int (0 + k))) 5 (js '' '') @
                arrow @ js '' ''))
          (real_of_int (PADDING + lineHeightOf fontSize * 2) +
             real k * real_of_int (lineHeightOf fontSize))])
       [0 ..< length pageLines])"
  unfolding renderPage_def Let_def drawLines_drawn
  by (simp add: fillText_def fillRect_def createCanvas_def)

lemma renderPage_font:
  "font (renderPage m L fontSize w totalPages pageNum pageLines) =
     String fontSize @ js ''px Monaco, '' @ [0x22] @ js ''Courier New'' @ [0x22] @
     js '', monospace''"
  unfolding renderPage_def Let_def drawLines_font
  by (simp add: fillText_def fillRect_def createCanvas_def)

lemma replicate_four: "replicate 4 c = [c, c, c, c]"
  by (simp add: numeral_eq_Suc)

lemma first_line_number: "padStart (String (startLineNum (int 0) 80 + int 0)) 5 (js '' '') = js ''    1''"
  by (simp add: startLineNum_def String_def decimalDigits.simps padStart_single js_def
        digitChar_def replicate_four)

lemma first_line_y:
  "real_of_int (PADDING + lineHeightOf 14 * 2) + real 0 * real_of_int (lineHeightOf 14) = 84"
  by (simp add: PADDING_def lineHeightOf_def LINE_HEIGHT_MULTIPLIER_def)

lemma first_line_x: "real_of_int PADDING + fixedPitch f (js ''    1'' @ arrow @ js '' '') = 110"
  by (simp add: PADDING_def fixedPitch_def js_def arrow_def)

lemma const_x_color: "getLineColor (js ''const x'') = KEYWORD_COLOR"
  by (simp add: getLineColor_def js_def js_trim_def isWhiteSpace_def startsWith_def
        regex_test_def keywordPattern_def isWordCharAt_def isWordChar_def)

lemma single_line_page_drawn:
  "drawn (renderPage fixedPitch 80 14 1400 1 0 [line]) =
     [FillRect BG_COLOR 0 0 (real_of_int 1400) (real_of_int (imageHeightOf 14 80)),
      FillText LINE_NUMBER_COLOR
        (js ''API Documentation - Page '' @ String (int 0 + 1) @ js ''/'' @ String 1)
        (real_of_int PADDING) (real_of_int (PADDING + 14)),
      FillText LINE_NUMBER_COLOR (js ''    1'' @ arrow) 40 84,
      FillText (getLineColor line) line 110 84]"
proof -
  have u: "[0 ..< length [line]] = [0]" by simp
  have f: "fixedPitch f t = 10 * real (length t)" for f t by (simp add: fixedPitch_def)
  have x: "real_of_int PADDING + 10 * real (length (js ''    1'' @ arrow @ js '' '')) = 110"
    by (simp add: PADDING_def js_def arrow_def)
  have n: "padStart (String (startLineNum (int 0) 80 + int (0 + 0))) 5 (js '' '') = js ''    1''"
    using first_line_number by simp
  have p: "real_of_int PADDING = 40" by (simp add: PADDING_def)
  show ?thesis
    unfolding renderPage_drawn u list.map concat.simps n f x first_line_y
    by (simp only: append_Cons append_Nil append_Nil2 nth_Cons_0 p)
qed

lemma padEnd_one: "padEnd (String 1) 5 (js '' '') = js ''1    ''"
proof -
  have "concat (replicate 4 (js '' '')) = js ''    ''"
    by (simp add: replicate_four js_def)
  moreover have "String 1 = js ''1''"
    by (simp add: String_def decimalDigits.simps js_def digitChar_def)
  ultimately show ?thesis by (simp add: padEnd_def js_def)
qed

text \<open>
  C8, as amended. For the content line with index i of a page, the renderer draws, in
  the line-number colour and at x = PADDING, the 1-based line number padded with spaces
  on the left to five characters (the number is right-aligned) followed by the arrow
  glyph; then it draws the text of the line, in the colour of the Line Classifier, at
  x = PADDING plus the measured width of that prefix followed by one space.
\<close>

theorem content_line_drawing:
  assumes "i < length pageLines"
  shows "let ctx = renderPage m L fontSize w totalPages pageNum pageLines;
             lineNum = startLineNum (int pageNum) L + int i;
             lineNumStr = padStart (String lineNum) 5 (js '' '');
             y = real_of_int (PADDING + lineHeightOf fontSize * 2) +
                 real i * real_of_int (lineHeightOf fontSize)
         in lineNum = int pageNum * L + int i + 1 \<and>
            lineNumStr = replicate (5 - length (String lineNum)) 0x20 @ String lineNum \<and>
            drawn ctx ! (2 + 2 * i) =
              FillText LINE_NUMBER_COLOR (lineNumStr @ arrow) (real_of_int PADDING) y \<and>
            drawn ctx ! (2 + 2 * i + 1) =
              FillText (getLineColor (pageLines ! i)) (pageLines ! i)
                (real_of_int PADDING + m (font ctx) (lineNumStr @ arrow @ js '' '')) y"
proof -
  let ?R = "renderPage m L fontSize w totalPages pageNum pageLines"
  define y where "y k = real_of_int (PADDING + lineHeightOf fontSize * 2) +
                        real k * real_of_int (lineHeightOf fontSize)" for k
  define a where "a k = FillText LINE_NUMBER_COLOR
          (padStart (String (startLineNum (int pageNum) L + int (0 + k))) 5 (js '' '') @ arrow)
          (real_of_int PADDING) (y k)" for k
  define b where "b k = FillText (getLineColor (pageLines ! k)) (pageLines ! k)
          (real_of_int PADDING +
             m (String fontSize @ js ''px Monaco, '' @ [0x22] @ js ''Courier New'' @ [0x22] @
                js '', monospace'')
               (padStart (String (startLineNum (int pageNum) L + int (0 + k))) 5 (js '' '') @
                arrow @ js '' ''))
          (y k)" for k
  have d: "drawn ?R =
     [FillRect BG_COLOR 0 0 (real_of_int w) (real_of_int (imageHeightOf fontSize L)),
      FillText LINE_NUMBER_COLOR
        (js ''API Documentation - Page '' @ String (int pageNum + 1) @ js ''/'' @
         String totalPages)
        (real_of_int PADDING) (real_of_int (PADDING + fontSize))] @
     concat (map (\<lambda>k. [a k, b k]) [0 ..< length pageLines])"
    unfolding renderPage_drawn a_def b_def y_def ..
  have s: "js '' '' = [0x20]" by (simp add: js_def)
  have n: "startLineNum (int pageNum) L + int i = int pageNum * L + int i + 1"
    by (simp add: startLineNum_def)
  have p: "padStart (String (startLineNum (int pageNum) L + int i)) 5 (js '' '') =
           replicate (5 - length (String (startLineNum (int pageNum) L + int i))) 0x20 @
           String (startLineNum (int pageNum) L + int i)"
    unfolding s by (rule padStart_single)
  have i2: "2 + 2 * i = Suc (Suc (2 * i))" "2 + 2 * i + 1 = Suc (Suc (2 * i + 1))"
    by simp_all
  have "drawn ?R ! (2 + 2 * i) = a i"
    unfolding d i2 using concat_pairs_nth(1) [OF assms, of a b] by simp
  then have a: "drawn ?R ! (2 + 2 * i) =
           FillText LINE_NUMBER_COLOR
             (padStart (String (startLineNum (int pageNum) L + int i)) 5 (js '' '') @ arrow)
             (real_of_int PADDING)
             (real_of_int (PADDING + lineHeightOf fontSize * 2) +
                real i * real_of_int (lineHeightOf fontSize))"
    unfolding a_def y_def by simp
  have "drawn ?R ! (2 + 2 * i + 1) = b i"
    unfolding d i2 using concat_pairs_nth(2) [OF assms, of a b] by simp
  then have b: "drawn ?R ! (2 + 2 * i + 1) =
           FillText (getLineColor (pageLines ! i)) (pageLines ! i)
             (real_of_int PADDING +
                m (font ?R)
                  (padStart (String (startLineNum (int pageNum) L + int i)) 5 (js '' '') @
                   arrow @ js '' ''))
             (real_of_int (PADDING + lineHeightOf fontSize * 2) +
                real i * real_of_int (lineHeightOf fontSize))"
    unfolding b_def y_def renderPage_font by simp
  show ?thesis unfolding Let_def using n p a b by blast
qed

theorem content_line_drawing_witness:
  "(0::nat) < length [js ''const x''] \<and>
   drawn (renderPage fixedPitch 80 14 1400 1 0 [js ''const x'']) ! (2 + 2 * 0) =
     FillText LINE_NUMBER_COLOR (js ''    1'' @ arrow) (real_of_int PADDING) 84 \<and>
   drawn (renderPage fixedPitch 80 14 1400 1 0 [js ''const x'']) ! (2 + 2 * 0 + 1) =
     FillText KEYWORD_COLOR (js ''const x'') 110 84"
proof -
  let ?R = "renderPage fixedPitch 80 14 1400 1 0 [js ''const x'']"
  have h: "(0::nat) < length [js ''const x'']" by simp
  have e: "[js ''const x''] ! 0 = js ''const x''" by simp
  from content_line_drawing [OF h, of fixedPitch 80 14 1400 1 0]
  have A0: "drawn ?R ! (2 + 2 * 0) =
          FillText LINE_NUMBER_COLOR
            (padStart (String (startLineNum (int 0) 80 + int 0)) 5 (js '' '') @ arrow)
            (real_of_int PADDING)
            (real_of_int (PADDING + lineHeightOf 14 * 2) + real 0 * real_of_int (lineHeightOf 14))"
    and B0: "drawn ?R ! (2 + 2 * 0 + 1) =
          FillText (getLineColor ([js ''const x''] ! 0)) ([js ''const x''] ! 0)
            (real_of_int PADDING +
               fixedPitch (font ?R)
                 (padStart (String (startLineNum (int 0) 80 + int 0)) 5 (js '' '') @ arrow @
                  js '' ''))
            (real_of_int (PADDING + lineHeightOf 14 * 2) + real 0 * real_of_int (lineHeightOf 14))"
    unfolding Let_def by blast+
  have A: "drawn ?R ! (2 + 2 * 0) =
          FillText LINE_NUMBER_COLOR (js ''    1'' @ arrow) (real_of_int PADDING) 84"
    using A0 unfolding first_line_number first_line_y .
  have B: "drawn ?R ! (2 + 2 * 0 + 1) = FillText KEYWORD_COLOR (js ''const x'') 110 84"
    using B0 unfolding first_line_number first_line_y first_line_x e const_x_color .
  from h A B show ?thesis by blast
qed

text \<open>
  C8 as the specification states it fails on the first line of a one-line page under a
  fixed-pitch metric: the prefix drawn is \<open>"    1"\<close> and the arrow, not the number
  padded on the right, and the text is drawn at 110, not at PADDING plus the width of
  the prefix that was drawn, which is 100.
\<close>

theorem content_line_drawing_counterexample:
  "drawn (renderPage fixedPitch 80 14 1400 1 0 [js ''x'']) ! 2 =
     FillText LINE_NUMBER_COLOR (js ''    1'' @ arrow) 40 84 \<and>
   drawn (renderPage fixedPitch 80 14 1400 1 0 [js ''x'']) ! 2 \<noteq>
     FillText LINE_NUMBER_COLOR (padEnd (String 1) 5 (js '' '') @ arrow) 40 84 \<and>
   drawn (renderPage fixedPitch 80 14 1400 1 0 [js ''x'']) ! 3 =
     FillText (getLineColor (js ''x'')) (js ''x'') 110 84 \<and>
   drawn (renderPage fixedPitch 80 14 1400 1 0 [js ''x'']) ! 3 \<noteq>
     FillText (getLineColor (js ''x'')) (js ''x'')
       (real_of_int PADDING +
          fixedPitch (font (renderPage fixedPitch 80 14 1400 1 0 [js ''x'']))
            (js ''    1'' @ arrow)) 84"
proof -
  let ?R = "renderPage fixedPitch 80 14 1400 1 0 [js ''x'']"
  have a: "drawn ?R ! 2 = FillText LINE_NUMBER_COLOR (js ''    1'' @ arrow) 40 84"
    unfolding single_line_page_drawn by simp
  have b: "drawn ?R ! 3 = FillText (getLineColor (js ''x'')) (js ''x'') 110 84"
    unfolding single_line_page_drawn by simp
  have "js ''    1'' \<noteq> js ''1    ''" by (simp add: js_def)
  then have c: "drawn ?R ! 2 \<noteq>
      FillText LINE_NUMBER_COLOR (padEnd (String 1) 5 (js '' '') @ arrow) 40 84"
    unfolding a padEnd_one by simp
  have "real_of_int PADDING + fixedPitch (font ?R) (js ''    1'' @ arrow) = 100"
    by (simp add: PADDING_def fixedPitch_def js_def arrow_def)
  then have d: "drawn ?R ! 3 \<noteq>
      FillText (getLineColor (js ''x'')) (js ''x'')
        (real_of_int PADDING + fixedPitch (font ?R) (js ''    1'' @ arrow)) 84"
    unfolding b by simp
  from a c b d show ?thesis by blast
qed

section \<open>Properties of the convert command\<close>

lemma js_split_nonempty: "js_split s sep \<noteq> []"
  by (cases s) simp_all

lemma paginate_empty: "paginate [] L = Some []"
  by (simp add: paginate_def paginate_loop.simps)

text \<open>
  C9. The split of any file content on line feeds has at least one line, so for a page
  size L >= 1 (all three density presets have one) the convert pipeline returns and
  writes at least one page, ceil(N/L) of them; the pagination of a zero-line Document
  would give zero pages, and no file content leads to it.
\<close>

theorem convert_produces_a_page:
  "js_split content LF \<noteq> [] \<and>
   (1 \<le> L \<longrightarrow>
      (\<exists>files. convert P m content out L fontSize w = Some files \<and>
               1 \<le> length files \<and>
               int (length files) = totalPagesOf (js_split content LF) L \<and>
               map fst files = map (\<lambda>k. join P out (filename k)) [0 ..< length files])) \<and>
   (\<forall>K. paginate ([] :: js_string list) K = Some []) \<and>
   (\<forall>(d, l, f) \<in> set densityPresets. 1 \<le> l)"
proof (intro conjI impI allI)
  show "js_split content LF \<noteq> []" by (rule js_split_nonempty)
next
  assume L: "1 \<le> L"
  let ?doc = "js_split content LF"
  let ?l = "nat L"
  let ?m = "(length ?doc + ?l - 1) div ?l"
  let ?pages = "map (\<lambda>k. take ?l (drop (k * ?l) ?doc)) [0 ..< ?m]"
  have pos: "0 < L" and l: "0 < ?l" using L by simp_all
  have p: "paginate ?doc L = Some ?pages" by (rule paginate_closed [OF pos])
  have "0 < length ?doc" using js_split_nonempty [of content LF] by simp
  moreover have "length ?doc \<le> ?m * ?l" by (rule page_count_bounds(1) [OF l])
  ultimately have "0 < ?m * ?l" by (rule less_le_trans)
  then have m: "1 \<le> ?m" by (cases "?m") simp_all
  have "\<lceil>real (length ?doc) / real ?l\<rceil> = int ?m" by (rule ceiling_page_count [OF l])
  moreover have "real ?l = real_of_int L" using pos by simp
  ultimately have t: "totalPagesOf ?doc L = int ?m" by (simp add: totalPagesOf_def)
  let ?files = "map (\<lambda>pageNum.
                     (join P out (filename pageNum),
                      renderPage m L fontSize w (totalPagesOf ?doc L)
                        pageNum (?pages ! pageNum)))
                   [0 ..< length ?pages]"
  have c: "convert P m content out L fontSize w = Some ?files"
    unfolding convert_def generateImages_def Let_def p by simp
  have "1 \<le> length ?files" using m by simp
  moreover have "int (length ?files) = totalPagesOf ?doc L" using t by simp
  moreover have "map fst ?files = map (\<lambda>k. join P out (filename k)) [0 ..< length ?files]"
    by (simp add: o_def)
  ultimately show "\<exists>files. convert P m content out L fontSize w = Some files \<and>
               1 \<le> length files \<and>
               int (length files) = totalPagesOf (js_split content LF) L \<and>
               map fst files = map (\<lambda>k. join P out (filename k)) [0 ..< length files]"
    using c by blast
next
  fix K
  show "paginate ([] :: js_string list) K = Some []" by (rule paginate_empty)
next
  show "\<forall>(d, l, f) \<in> set densityPresets. 1 \<le> l" by (simp add: densityPresets_def)
qed

theorem convert_produces_a_page_witness:
  "(1::int) \<le> 80 \<and>
   (\<exists>files. convert examplePaths fixedPitch [] (js ''docshot'') 80 14 1400 = Some files \<and>
            1 \<le> length files \<and>
            int (length files) = totalPagesOf (js_split [] LF) 80 \<and>
            map fst files =
              map (\<lambda>k. join examplePaths (js ''docshot'') (filename k)) [0 ..< length files])"
proof -
  have h: "(1::int) \<le> 80" by simp
  from convert_produces_a_page [of "[]" 80 examplePaths fixedPitch "js ''docshot''" 14 1400] h
  show ?thesis by blast
qed

section \<open>Properties of the Image Reference Builder and its wrapper\<close>

lemma pngFiles_empty_iff: "pngFiles P d files = [] \<longleftrightarrow> \<not> list_ex isPngFile files"
proof -
  have "pngFiles P d files = [] \<longleftrightarrow> length (pngFiles P d files) = 0" by simp
  also have "\<dots> \<longleftrightarrow> length (filter isPngFile files) = 0"
    by (simp only: pngFiles_def length_sort length_map)
  also have "\<dots> \<longleftrightarrow> \<not> list_ex isPngFile files"
    by (simp add: list_ex_iff filter_empty_conv)
  finally show ?thesis .
qed

lemma imageReferences_cases:
  "imageReferences P fs cwd dir =
     (case fs (resolve P cwd dir) of
        None \<Rightarrow> Inl (DirectoryNotFound (resolve P cwd dir))
      | Some File \<Rightarrow> Inl (NotADirectory (resolve P cwd dir))
      | Some (Directory (Inl message)) \<Rightarrow> Inl (ReadDirectoryError message)
      | Some (Directory (Inr files)) \<Rightarrow>
          if list_ex isPngFile files
          then Inr (systemPrompt P cwd (pngFiles P (resolve P cwd dir) files))
          else Inl (NoImagesFound (resolve P cwd dir)))"
  by (simp add: imageReferences_def Let_def existsSync_def isDirectory_def readdirSync_def
        pngFiles_empty_iff split: option.splits fs_node.splits sum.splits)

lemma findIndex_from_range:
  "findIndex_from p xs k = - 1 \<or> (k \<le> findIndex_from p xs k \<and> findIndex_from p xs k < k + int (length xs))"
  by (induction xs arbitrary: k) (simp, force)

lemma findIndex_from_none:
  "0 \<le> k \<Longrightarrow> findIndex_from p xs k = - 1 \<longleftrightarrow> \<not> list_ex p xs"
proof (induction xs arbitrary: k)
  case Nil
  show ?case by simp
next
  case (Cons x xs)
  then show ?case by (simp add: Cons.IH [of "k + 1"]) 
qed

lemma findIndex_from_split:
  "0 \<le> k \<Longrightarrow> findIndex_from p xs k \<noteq> - 1 \<Longrightarrow>
   \<exists>pre x post. xs = pre @ x # post \<and> p x \<and> \<not> list_ex p pre \<and>
                 findIndex_from p xs k = k + int (length pre)"
proof (induction xs arbitrary: k)
  case Nil
  then show ?case by simp
next
  case (Cons y ys)
  show ?case
  proof (cases "p y")
    case True
    then have "y # ys = [] @ y # ys \<and> p y \<and> \<not> list_ex p [] \<and>
               findIndex_from p (y # ys) k = k + int (length ([] :: 'a list))"
      by simp
    then show ?thesis by blast
  next
    case False
    with Cons.prems have "findIndex_from p ys (k + 1) \<noteq> - 1" by simp
    moreover have "0 \<le> k + 1" using Cons.prems by simp
    ultimately obtain pre x post where
      "ys = pre @ x # post" "p x" "\<not> list_ex p pre"
      "findIndex_from p ys (k + 1) = k + 1 + int (length pre)"
      using Cons.IH [of "k + 1"] by blast
    then have "y # ys = (y # pre) @ x # post \<and> p x \<and> \<not> list_ex p (y # pre) \<and>
               findIndex_from p (y # ys) k = k + int (length (y # pre))"
      using False by simp
    then show ?thesis by blast
  qed
qed

lemma findIndex_none: "findIndex p xs = - 1 \<longleftrightarrow> \<not> list_ex p xs"
  by (simp add: findIndex_def findIndex_from_none)

lemma findIndex_split:
  "findIndex p xs \<noteq> - 1 \<Longrightarrow>
   \<exists>pre x post. xs = pre @ x # post \<and> p x \<and> \<not> list_ex p pre \<and>
                 findIndex p xs = int (length pre)"
  using findIndex_from_split [of 0 p xs] by (simp add: findIndex_def)

lemma js_slice_prefix: "js_slice (pre @ rest) 0 (int (length pre)) = pre"
  by (simp add: js_slice_def Let_def min_def)

lemma js_slice_from_drop:
  "0 \<le> k \<Longrightarrow> js_slice_from xs k = drop (nat k) xs"
  by (simp add: js_slice_from_def js_slice_def Let_def min_def)

lemma claudeArgs_removes_flag:
  "claudeArgs (pre @ flag # v # post) (int (length pre)) prompt =
     pre @ post @ [js ''--append-system-prompt'', prompt]"
proof -
  have "js_slice (pre @ flag # v # post) 0 (int (length pre)) = pre" by (rule js_slice_prefix)
  moreover have "js_slice_from (pre @ flag # v # post) (int (length pre) + 2) = post"
  proof -
    have "nat (int (length pre) + 2) = length pre + 2" by simp
    then show ?thesis by (simp add: js_slice_from_drop)
  qed
  moreover have "int (length pre) \<noteq> - 1" by simp
  ultimately show ?thesis by (simp add: claudeArgs_def)
qed

lemma images_flag_not_help: "js ''--images'' \<notin> set helpFlags"
  by (simp add: helpFlags_def js_def)

lemma images_flag_is_flag: "isImagesFlag (js ''--images'')"
  by (simp add: isImagesFlag_def)

lemma docload_images_dir:
  assumes "dir \<notin> set helpFlags"
  shows "docload P fs cwd [js ''--images'', dir] =
         (case imageReferences P fs cwd dir of
            Inl err \<Rightarrow> Exit 1 err
          | Inr prompt \<Rightarrow> Spawn (js ''claude'') (claudeArgs [js ''--images'', dir] 0 prompt))"
proof -
  have "\<not> list_ex (\<lambda>arg. arg \<in> set helpFlags) [js ''--images'', dir]"
    using assms images_flag_not_help by simp
  moreover have "findIndex isImagesFlag [js ''--images'', dir] = 0"
    by (simp add: findIndex_def images_flag_is_flag)
  ultimately show ?thesis by (simp add: docload_def Let_def)
qed

lemma docload_default_dir:
  "docload P fs cwd [] =
         (case imageReferences P fs cwd (js ''docshot'') of
            Inl err \<Rightarrow> Exit 1 err
          | Inr prompt \<Rightarrow> Spawn (js ''claude'') (claudeArgs [] (- 1) prompt))"
  by (simp add: docload_def Let_def findIndex_def)

lemma lower_eq_dot:
  fixes c :: code_unit
  shows "(if 0x41 \<le> c \<and> c \<le> 0x5A then c + 0x20 else c) = 0x2E \<longleftrightarrow> c = 0x2E"
  by auto

lemma lower_eq_p:
  fixes c :: code_unit
  shows "(if 0x41 \<le> c \<and> c \<le> 0x5A then c + 0x20 else c) = 0x70 \<longleftrightarrow> c = 0x70 \<or> c = 0x50"
  by auto

lemma lower_eq_n:
  fixes c :: code_unit
  shows "(if 0x41 \<le> c \<and> c \<le> 0x5A then c + 0x20 else c) = 0x6E \<longleftrightarrow> c = 0x6E \<or> c = 0x4E"
  by auto

lemma lower_eq_g:
  fixes c :: code_unit
  shows "(if 0x41 \<le> c \<and> c \<le> 0x5A then c + 0x20 else c) = 0x67 \<longleftrightarrow> c = 0x67 \<or> c = 0x47"
  by auto

lemma js_png: "js ''.png'' = [0x2E, 0x70, 0x6E, 0x67]"
  by (simp add: js_def)

lemma list_of_length_four:
  assumes "length xs = 4"
  obtains w a b c where "xs = [w, a, b, c]"
proof -
  from assms obtain w r1 where 1: "xs = w # r1" "length r1 = 3"
    by (cases xs) auto
  then obtain a r2 where 2: "r1 = a # r2" "length r2 = 2" by (cases r1) auto
  then obtain b r3 where 3: "r2 = b # r3" "length r3 = 1" by (cases r2) auto
  then obtain c where 4: "r3 = [c]" by (cases r3) auto
  from 1 2 3 4 have "xs = [w, a, b, c]" by simp
  then show ?thesis by (rule that)
qed

lemma isPngFile_iff:
  "isPngFile f \<longleftrightarrow>
   (\<exists>stem a b c. f = stem @ [0x2E, a, b, c] \<and>
       a \<in> {0x70, 0x50} \<and> b \<in> {0x6E, 0x4E} \<and> c \<in> {0x67, 0x47})"
proof
  assume p: "isPngFile f"
  let ?lc = "\<lambda>c :: code_unit. if 0x41 \<le> c \<and> c \<le> 0x5A then c + 0x20 else c"
  have l4: "length [0x2E, 0x70, 0x6E, 0x67 :: code_unit] = 4" by simp
  from p have "4 \<le> length (map ?lc f) \<and>
      drop (length (map ?lc f) - 4) (map ?lc f) = [0x2E, 0x70, 0x6E, 0x67]"
    unfolding isPngFile_def endsWith_def toLowerCase_def js_png l4 .
  then have len: "4 \<le> length f"
    and e: "drop (length f - 4) (map ?lc f) = [0x2E, 0x70, 0x6E, 0x67]"
    by (simp_all only: length_map)
  have "length (drop (length f - 4) f) = 4" using len by simp
  then obtain w a b c where d: "drop (length f - 4) f = [w, a, b, c]"
    by (rule list_of_length_four)
  have "map ?lc [w, a, b, c] = [0x2E, 0x70, 0x6E, 0x67]"
    using e unfolding drop_map d .
  then have "?lc w = 0x2E" "?lc a = 0x70" "?lc b = 0x6E" "?lc c = 0x67"
    by simp_all
  then have "w = 0x2E" "a = 0x70 \<or> a = 0x50" "b = 0x6E \<or> b = 0x4E" "c = 0x67 \<or> c = 0x47"
    by (simp_all only: lower_eq_dot lower_eq_p lower_eq_n lower_eq_g)
  moreover have "f = take (length f - 4) f @ [w, a, b, c]"
    using d append_take_drop_id [of "length f - 4" f] by simp
  ultimately show "\<exists>stem a b c. f = stem @ [0x2E, a, b, c] \<and>
       a \<in> {0x70, 0x50} \<and> b \<in> {0x6E, 0x4E} \<and> c \<in> {0x67, 0x47}"
    by blast
next
  assume "\<exists>stem a b c. f = stem @ [0x2E, a, b, c] \<and>
       a \<in> {0x70, 0x50} \<and> b \<in> {0x6E, 0x4E} \<and> c \<in> {0x67, 0x47}"
  then obtain stem a b c where f: "f = stem @ [0x2E, a, b, c]"
    and a: "a = 0x70 \<or> a = 0x50" and b: "b = 0x6E \<or> b = 0x4E" and c: "c = 0x67 \<or> c = 0x47"
    by auto
  let ?lc = "\<lambda>c :: code_unit. if 0x41 \<le> c \<and> c \<le> 0x5A then c + 0x20 else c"
  have "?lc a = 0x70" "?lc b = 0x6E" "?lc c = 0x67" "?lc 0x2E = 0x2E"
    using a b c unfolding lower_eq_p lower_eq_n lower_eq_g lower_eq_dot by simp_all
  then have "map ?lc [0x2E, a, b, c] = [0x2E, 0x70, 0x6E, 0x67]" by simp
  then show "isPngFile f"
    unfolding f isPngFile_def endsWith_def toLowerCase_def js_png by simp
qed

lemma append_le_cancel:
  fixes xs ys zs :: "('a::linorder) list"
  shows "xs @ ys \<le> xs @ zs \<longleftrightarrow> ys \<le> zs"
  by (induction xs) simp_all

lemma insort_map_prefix:
  fixes pre :: "('a::linorder) list"
  shows "insort (pre @ x) (map ((@) pre) ys) = map ((@) pre) (insort x ys)"
  by (induction ys) (simp_all add: append_le_cancel)

lemma sort_map_prefix:
  fixes pre :: "('a::linorder) list"
  shows "sort (map ((@) pre) xs) = map ((@) pre) (sort xs)"
  by (induction xs) (simp_all add: sort_key_simps insort_map_prefix)

lemma two_element_list:
  assumes "distinct xs" "set xs = {a, b}" "a \<noteq> b"
  shows "xs = [a, b] \<or> xs = [b, a]"
proof -
  have "length xs = card (set xs)" using assms(1) by (simp add: distinct_card)
  also have "\<dots> = 2" using assms(2,3) by simp
  finally obtain x y where xy: "xs = [x, y]"
    by (cases xs; cases "tl xs") auto
  then have "{x, y} = {a, b}" using assms(2) by simp
  then show ?thesis unfolding xy by (auto simp: doubleton_eq_iff)
qed

lemma pngFiles_sorted_names:
  assumes "\<forall>f \<in> set files. join P d f = pre @ f"
  shows "pngFiles P d files = map (join P d) (sort (filter isPngFile files))"
proof -
  have a: "map (join P d) xs = map ((@) pre) xs" if "set xs \<subseteq> set files" for xs
    using that assms by (intro map_cong) auto
  have "pngFiles P d files = sort (map ((@) pre) (filter isPngFile files))"
    unfolding pngFiles_def by (subst a) simp_all
  also have "\<dots> = map ((@) pre) (sort (filter isPngFile files))" by (rule sort_map_prefix)
  also have "\<dots> = map (join P d) (sort (filter isPngFile files))"
    by (rule a [symmetric]) simp
  finally show ?thesis .
qed

lemma systemPrompt_of_names:
  "systemPrompt P cwd (map (join P d) names) =
     array_join (map (\<lambda>f. js ''@'' @ relative P cwd (join P d f)) names) (js '' '')"
  by (simp add: systemPrompt_def relativePaths_def o_def)

lemma page_names_are_png:
  "isPngFile (js ''page_001.png'')" "isPngFile (js ''page_002.png'')"
  by (simp_all add: isPngFile_def endsWith_def toLowerCase_def js_def)

lemma page_names_sorted:
  "sort [js ''page_001.png'', js ''page_002.png''] = [js ''page_001.png'', js ''page_002.png'']"
  "sort [js ''page_002.png'', js ''page_001.png''] = [js ''page_001.png'', js ''page_002.png'']"
  "js ''page_001.png'' \<noteq> js ''page_002.png''"
  by (simp_all add: js_def)

lemma example_resolve:
  "resolve examplePaths (js ''/work'') (js ''shots'') = js ''/work/shots''"
  "resolve examplePaths (js ''/work'') (js ''nothing'') = js ''/work/nothing''"
  "resolve examplePaths (js ''/work'') (js ''notes.md'') = js ''/work/notes.md''"
  "resolve examplePaths (js ''/work'') (js ''empty'') = js ''/work/empty''"
  by (simp_all add: examplePaths_def startsWith_def js_def)

lemma example_nodes:
  "exampleFs (js ''/work/shots'') =
     Some (Directory (Inr [js ''page_002.png'', js ''page_001.png'']))"
  "exampleFs (js ''/work/nothing'') = None"
  "exampleFs (js ''/work/notes.md'') = Some File"
  "exampleFs (js ''/work/empty'') = Some (Directory (Inr []))"
  by (simp_all add: exampleFs_def js_def)

lemma example_join: "join examplePaths d f = (d @ js ''/'') @ f"
  by (simp add: examplePaths_def)

lemma example_relative:
  "relative examplePaths (js ''/work'') (join examplePaths (js ''/work/shots'') (js ''page_001.png''))
     = js ''shots/page_001.png''"
  "relative examplePaths (js ''/work'') (join examplePaths (js ''/work/shots'') (js ''page_002.png''))
     = js ''shots/page_002.png''"
  by (simp_all add: examplePaths_def startsWith_def js_def)

lemma example_prompt:
  "js ''@'' @ js ''shots/page_001.png'' @ js '' '' @ js ''@'' @ js ''shots/page_002.png'' =
   js ''@shots/page_001.png @shots/page_002.png''"
  by (simp add: js_def)

lemma example_references:
  "imageReferences examplePaths exampleFs (js ''/work'') (js ''shots'') =
     Inr (js ''@shots/page_001.png @shots/page_002.png'')"
proof -
  have j: "\<forall>f \<in> set [js ''page_002.png'', js ''page_001.png''].
             join examplePaths (js ''/work/shots'') f = (js ''/work/shots'' @ js ''/'') @ f"
    using example_join by blast
  have e: "list_ex isPngFile [js ''page_002.png'', js ''page_001.png'']"
    using page_names_are_png by simp
  have f: "filter isPngFile [js ''page_002.png'', js ''page_001.png''] =
           [js ''page_002.png'', js ''page_001.png'']"
    using page_names_are_png by simp
  have p: "pngFiles examplePaths (js ''/work/shots'') [js ''page_002.png'', js ''page_001.png''] =
             [join examplePaths (js ''/work/shots'') (js ''page_001.png''),
              join examplePaths (js ''/work/shots'') (js ''page_002.png'')]"
    by (simp only: pngFiles_sorted_names [OF j] f page_names_sorted list.map)
  have s: "systemPrompt examplePaths (js ''/work'')
             [join examplePaths (js ''/work/shots'') (js ''page_001.png''),
              join examplePaths (js ''/work/shots'') (js ''page_002.png'')] =
           js ''@shots/page_001.png @shots/page_002.png''"
    by (simp only: systemPrompt_def relativePaths_def list.map array_join.simps
          example_relative append_assoc example_prompt)
  show ?thesis
    unfolding imageReferences_cases example_resolve example_nodes
    by (simp only: option.case fs_node.case sum.case e if_True p s)
qed

lemma example_args_no_help:
  "\<not> list_ex (\<lambda>arg. arg \<in> set helpFlags)
       [js ''-p'', js ''-i'', js ''shots'', js ''x'', js ''--images'', js ''y'']"
  by (simp add: helpFlags_def js_def)

lemma example_args_index:
  "findIndex isImagesFlag
     [js ''-p'', js ''-i'', js ''shots'', js ''x'', js ''--images'', js ''y''] = 1"
  by (simp add: findIndex_def isImagesFlag_def js_def)

lemma example_args_forwarded:
  "claudeArgs [js ''-p'', js ''-i'', js ''shots'', js ''x'', js ''--images'', js ''y''] 1 prompt =
     [js ''-p'', js ''x'', js ''--images'', js ''y'', js ''--append-system-prompt'', prompt]"
  using claudeArgs_removes_flag
          [of "[js ''-p'']" "js ''-i''" "js ''shots''" "[js ''x'', js ''--images'', js ''y'']" prompt]
  by simp

lemma example_docload:
  "docload examplePaths exampleFs (js ''/work'')
     [js ''-p'', js ''-i'', js ''shots'', js ''x'', js ''--images'', js ''y''] =
   Spawn (js ''claude'')
     [js ''-p'', js ''x'', js ''--images'', js ''y'', js ''--append-system-prompt'',
      js ''@shots/page_001.png @shots/page_002.png'']"
proof -
  have d: "[js ''-p'', js ''-i'', js ''shots'', js ''x'', js ''--images'', js ''y''] ! nat (1 + 1)
           = js ''shots''"
    by (simp add: numeral_2_eq_2)
  show ?thesis
    unfolding docload_def Let_def example_args_index
    using example_args_no_help d
    by (simp add: example_references example_args_forwarded)
qed

text \<open>
  C5. Let the directory be one whose entries \<open>readdirSync\<close> returns, and let
  \<open>path.join\<close> put one fixed prefix (the directory and a separator) before each entry
  name. Then the Image Reference Builder takes the entries whose name ends in \<open>.png\<close>
  in any mix of upper and lower case, sorts them by name, and returns their paths
  relative to the current working directory, each with \<open>@\<close> in front, joined by
  single spaces. For a directory that holds exactly \<open>page_001.png\<close> and
  \<open>page_002.png\<close>, listed in either order, the result is the two tokens in that
  order with one space between them.
\<close>

theorem image_references_listing:
  assumes "fs (resolve P cwd dir) = Some (Directory (Inr files))"
    and "\<forall>f \<in> set files. join P (resolve P cwd dir) f = pre @ f"
  shows "(list_ex isPngFile files \<longrightarrow>
            imageReferences P fs cwd dir =
              Inr (array_join
                     (map (\<lambda>f. js ''@'' @ relative P cwd (join P (resolve P cwd dir) f))
                          (sort (filter isPngFile files)))
                     (js '' ''))) \<and>
         (distinct files \<and> set files = {js ''page_001.png'', js ''page_002.png''} \<longrightarrow>
            imageReferences P fs cwd dir =
              Inr (js ''@'' @ relative P cwd (join P (resolve P cwd dir) (js ''page_001.png'')) @
                   js '' '' @
                   js ''@'' @ relative P cwd (join P (resolve P cwd dir) (js ''page_002.png'')))) \<and>
         (\<forall>f. isPngFile f \<longleftrightarrow>
            (\<exists>stem a b c. f = stem @ [0x2E, a, b, c] \<and>
                a \<in> {0x70, 0x50} \<and> b \<in> {0x6E, 0x4E} \<and> c \<in> {0x67, 0x47}))"
proof (intro conjI)
  let ?d = "resolve P cwd dir"
  have g: "imageReferences P fs cwd dir =
             Inr (array_join (map (\<lambda>f. js ''@'' @ relative P cwd (join P ?d f))
                                  (sort (filter isPngFile files))) (js '' ''))"
    if "list_ex isPngFile files"
    using that assms(1)
    by (simp add: imageReferences_cases pngFiles_sorted_names [OF assms(2)]
          systemPrompt_of_names)
  show "list_ex isPngFile files \<longrightarrow>
            imageReferences P fs cwd dir =
              Inr (array_join (map (\<lambda>f. js ''@'' @ relative P cwd (join P ?d f))
                                   (sort (filter isPngFile files))) (js '' ''))"
    using g by blast
  show "distinct files \<and> set files = {js ''page_001.png'', js ''page_002.png''} \<longrightarrow>
            imageReferences P fs cwd dir =
              Inr (js ''@'' @ relative P cwd (join P ?d (js ''page_001.png'')) @ js '' '' @
                   js ''@'' @ relative P cwd (join P ?d (js ''page_002.png'')))"
  proof
    assume h: "distinct files \<and> set files = {js ''page_001.png'', js ''page_002.png''}"
    then have c: "files = [js ''page_001.png'', js ''page_002.png''] \<or>
                  files = [js ''page_002.png'', js ''page_001.png'']"
      using two_element_list [of files] page_names_sorted(3) by blast
    then have e: "list_ex isPngFile files" using page_names_are_png by auto
    have s: "sort (filter isPngFile files) = [js ''page_001.png'', js ''page_002.png'']"
      using c page_names_are_png page_names_sorted(1,2) by auto
    show "imageReferences P fs cwd dir =
              Inr (js ''@'' @ relative P cwd (join P ?d (js ''page_001.png'')) @ js '' '' @
                   js ''@'' @ relative P cwd (join P ?d (js ''page_002.png'')))"
      unfolding g [OF e] s by simp
  qed
  show "\<forall>f. isPngFile f \<longleftrightarrow>
            (\<exists>stem a b c. f = stem @ [0x2E, a, b, c] \<and>
                a \<in> {0x70, 0x50} \<and> b \<in> {0x6E, 0x4E} \<and> c \<in> {0x67, 0x47})"
    using isPngFile_iff by blast
qed

theorem image_references_listing_witness:
  "exampleFs (resolve examplePaths (js ''/work'') (js ''shots'')) =
     Some (Directory (Inr [js ''page_002.png'', js ''page_001.png''])) \<and>
   list_ex isPngFile [js ''page_002.png'', js ''page_001.png''] \<and>
   distinct [js ''page_002.png'', js ''page_001.png''] \<and>
   set [js ''page_002.png'', js ''page_001.png''] = {js ''page_001.png'', js ''page_002.png''} \<and>
   imageReferences examplePaths exampleFs (js ''/work'') (js ''shots'') =
     Inr (js ''@shots/page_001.png @shots/page_002.png'')"
proof -
  let ?files = "[js ''page_002.png'', js ''page_001.png'']"
  have n: "exampleFs (resolve examplePaths (js ''/work'') (js ''shots'')) =
             Some (Directory (Inr ?files))"
    by (simp only: example_resolve example_nodes)
  have j: "\<forall>f \<in> set ?files.
             join examplePaths (resolve examplePaths (js ''/work'') (js ''shots'')) f =
             (js ''/work/shots'' @ js ''/'') @ f"
    unfolding example_resolve using example_join by blast
  have e: "list_ex isPngFile ?files" using page_names_are_png by simp
  have d: "distinct ?files" using page_names_sorted(3) by simp
  have s: "set ?files = {js ''page_001.png'', js ''page_002.png''}" by auto
  from image_references_listing
         [where fs = exampleFs and P = examplePaths and cwd = "js ''/work''"
            and dir = "js ''shots''" and files = ?files
            and pre = "js ''/work/shots'' @ js ''/''", OF n j] d s
  have "imageReferences examplePaths exampleFs (js ''/work'') (js ''shots'') =
          Inr (js ''@'' @ relative examplePaths (js ''/work'')
                 (join examplePaths (resolve examplePaths (js ''/work'') (js ''shots''))
                    (js ''page_001.png'')) @
               js '' '' @
               js ''@'' @ relative examplePaths (js ''/work'')
                 (join examplePaths (resolve examplePaths (js ''/work'') (js ''shots''))
                    (js ''page_002.png'')))"
    by blast
  then have "imageReferences examplePaths exampleFs (js ''/work'') (js ''shots'') =
          Inr (js ''@shots/page_001.png @shots/page_002.png'')"
    by (simp only: example_resolve example_relative example_prompt)
  with n e d s show ?thesis by blast
qed

text \<open>
  C6. The Image Reference Builder ends with the error DirectoryNotFound exactly when the
  directory does not exist; with NotADirectory when the path exists and is not a
  directory; with NoImagesFound when the path is a directory whose entries hold no name
  that ends in \<open>.png\<close>. In each case the script prints the message and exits with
  code 1, and no reference string is produced.
\<close>

theorem image_reference_errors:
  "((\<exists>p. imageReferences P fs cwd dir = Inl (DirectoryNotFound p)) \<longleftrightarrow>
      \<not> existsSync fs (resolve P cwd dir)) \<and>
   (\<not> existsSync fs (resolve P cwd dir) \<longrightarrow>
      imageReferences P fs cwd dir = Inl (DirectoryNotFound (resolve P cwd dir))) \<and>
   (existsSync fs (resolve P cwd dir) \<and> \<not> isDirectory fs (resolve P cwd dir) \<longrightarrow>
      imageReferences P fs cwd dir = Inl (NotADirectory (resolve P cwd dir))) \<and>
   (\<forall>files. fs (resolve P cwd dir) = Some (Directory (Inr files)) \<and>
            \<not> list_ex isPngFile files \<longrightarrow>
      imageReferences P fs cwd dir = Inl (NoImagesFound (resolve P cwd dir))) \<and>
   (\<forall>e. imageReferences P fs cwd dir = Inl e \<and> dir \<notin> set helpFlags \<longrightarrow>
      docload P fs cwd [js ''--images'', dir] = Exit 1 e) \<and>
   (\<forall>e. imageReferences P fs cwd (js ''docshot'') = Inl e \<longrightarrow>
      docload P fs cwd [] = Exit 1 e)"
proof (intro conjI allI impI)
  show "(\<exists>p. imageReferences P fs cwd dir = Inl (DirectoryNotFound p)) \<longleftrightarrow>
        \<not> existsSync fs (resolve P cwd dir)"
    by (auto simp: imageReferences_cases existsSync_def
             split: option.splits fs_node.splits sum.splits)
next
  assume "\<not> existsSync fs (resolve P cwd dir)"
  then show "imageReferences P fs cwd dir = Inl (DirectoryNotFound (resolve P cwd dir))"
    by (simp add: imageReferences_cases existsSync_def)
next
  assume "existsSync fs (resolve P cwd dir) \<and> \<not> isDirectory fs (resolve P cwd dir)"
  then show "imageReferences P fs cwd dir = Inl (NotADirectory (resolve P cwd dir))"
    by (auto simp: imageReferences_cases existsSync_def isDirectory_def
             split: option.splits fs_node.splits)
next
  fix files
  assume "fs (resolve P cwd dir) = Some (Directory (Inr files)) \<and> \<not> list_ex isPngFile files"
  then show "imageReferences P fs cwd dir = Inl (NoImagesFound (resolve P cwd dir))"
    by (simp add: imageReferences_cases)
next
  fix e
  assume "imageReferences P fs cwd dir = Inl e \<and> dir \<notin> set helpFlags"
  then show "docload P fs cwd [js ''--images'', dir] = Exit 1 e"
    by (simp add: docload_images_dir)
next
  fix e
  assume "imageReferences P fs cwd (js ''docshot'') = Inl e"
  then show "docload P fs cwd [] = Exit 1 e"
    by (simp add: docload_default_dir)
qed

theorem image_reference_errors_witness:
  "\<not> existsSync exampleFs (resolve examplePaths (js ''/work'') (js ''nothing'')) \<and>
   imageReferences examplePaths exampleFs (js ''/work'') (js ''nothing'') =
     Inl (DirectoryNotFound (js ''/work/nothing'')) \<and>
   docload examplePaths exampleFs (js ''/work'') [js ''--images'', js ''nothing''] =
     Exit 1 (DirectoryNotFound (js ''/work/nothing'')) \<and>
   existsSync exampleFs (resolve examplePaths (js ''/work'') (js ''notes.md'')) \<and>
   \<not> isDirectory exampleFs (resolve examplePaths (js ''/work'') (js ''notes.md'')) \<and>
   imageReferences examplePaths exampleFs (js ''/work'') (js ''notes.md'') =
     Inl (NotADirectory (js ''/work/notes.md'')) \<and>
   exampleFs (resolve examplePaths (js ''/work'') (js ''empty'')) = Some (Directory (Inr [])) \<and>
   \<not> list_ex isPngFile [] \<and>
   imageReferences examplePaths exampleFs (js ''/work'') (js ''empty'') =
     Inl (NoImagesFound (js ''/work/empty''))"
proof -
  have a: "\<not> existsSync exampleFs (resolve examplePaths (js ''/work'') (js ''nothing''))"
    by (simp add: existsSync_def example_resolve example_nodes)
  have a': "js ''nothing'' \<notin> set helpFlags" by (simp add: helpFlags_def js_def)
  have b: "existsSync exampleFs (resolve examplePaths (js ''/work'') (js ''notes.md''))"
          "\<not> isDirectory exampleFs (resolve examplePaths (js ''/work'') (js ''notes.md''))"
    by (simp_all add: existsSync_def isDirectory_def example_resolve example_nodes)
  have c: "exampleFs (resolve examplePaths (js ''/work'') (js ''empty'')) = Some (Directory (Inr []))"
          "\<not> list_ex isPngFile []"
    by (simp_all add: example_resolve example_nodes)
  have 1: "imageReferences examplePaths exampleFs (js ''/work'') (js ''nothing'') =
             Inl (DirectoryNotFound (js ''/work/nothing''))"
    using image_reference_errors [of examplePaths exampleFs "js ''/work''" "js ''nothing''"] a
    unfolding example_resolve by blast
  have 2: "docload examplePaths exampleFs (js ''/work'') [js ''--images'', js ''nothing''] =
             Exit 1 (DirectoryNotFound (js ''/work/nothing''))"
    using image_reference_errors [of examplePaths exampleFs "js ''/work''" "js ''nothing''"] 1 a'
    by blast
  have 3: "imageReferences examplePaths exampleFs (js ''/work'') (js ''notes.md'') =
             Inl (NotADirectory (js ''/work/notes.md''))"
    using image_reference_errors [of examplePaths exampleFs "js ''/work''" "js ''notes.md''"] b
    unfolding example_resolve by blast
  have 4: "imageReferences examplePaths exampleFs (js ''/work'') (js ''empty'') =
             Inl (NoImagesFound (js ''/work/empty''))"
    using image_reference_errors [of examplePaths exampleFs "js ''/work''" "js ''empty''"] c
    unfolding example_resolve by blast
  from a b c 1 2 3 4 show ?thesis by blast
qed

text \<open>
  C10, as amended. When a help flag (\<open>--help\<close> or \<open>-h\<close>) is among the arguments,
  the wrapper forwards all arguments unchanged and appends nothing. Otherwise, when it
  forwards arguments, it removes only the first \<open>--images\<close> or \<open>-i\<close> and the
  argument that follows it, passes every other argument through unchanged and in order,
  and appends \<open>--append-system-prompt\<close> and the reference string at the end.
\<close>

theorem forwarded_arguments:
  "(list_ex (\<lambda>arg. arg \<in> set helpFlags) args \<longrightarrow>
      docload P fs cwd args = Spawn (js ''claude'') args) \<and>
   (\<not> list_ex (\<lambda>arg. arg \<in> set helpFlags) args \<and>
    docload P fs cwd args = Spawn cmd forwarded \<longrightarrow>
      cmd = js ''claude'' \<and>
      (\<exists>prompt.
         (\<not> list_ex isImagesFlag args \<and>
          imageReferences P fs cwd (js ''docshot'') = Inr prompt \<and>
          forwarded = args @ [js ''--append-system-prompt'', prompt]) \<or>
         (\<exists>pre flag v post.
            args = pre @ flag # v # post \<and> isImagesFlag flag \<and> \<not> list_ex isImagesFlag pre \<and>
            imageReferences P fs cwd v = Inr prompt \<and>
            forwarded = pre @ post @ [js ''--append-system-prompt'', prompt])))"
proof (rule conjI; rule impI)
  assume "list_ex (\<lambda>arg. arg \<in> set helpFlags) args"
  then show "docload P fs cwd args = Spawn (js ''claude'') args"
    by (simp add: docload_def)
next
  assume a: "\<not> list_ex (\<lambda>arg. arg \<in> set helpFlags) args \<and>
             docload P fs cwd args = Spawn cmd forwarded"
  then have nh: "\<not> list_ex (\<lambda>arg. arg \<in> set helpFlags) args"
    and sp: "docload P fs cwd args = Spawn cmd forwarded" by simp_all
  show "cmd = js ''claude'' \<and>
      (\<exists>prompt.
         (\<not> list_ex isImagesFlag args \<and>
          imageReferences P fs cwd (js ''docshot'') = Inr prompt \<and>
          forwarded = args @ [js ''--append-system-prompt'', prompt]) \<or>
         (\<exists>pre flag v post.
            args = pre @ flag # v # post \<and> isImagesFlag flag \<and> \<not> list_ex isImagesFlag pre \<and>
            imageReferences P fs cwd v = Inr prompt \<and>
            forwarded = pre @ post @ [js ''--append-system-prompt'', prompt]))"
  proof (cases "findIndex isImagesFlag args = - 1")
    case True
    then have nf: "\<not> list_ex isImagesFlag args" by (simp add: findIndex_none)
    from sp nh True have
      "(case imageReferences P fs cwd (js ''docshot'') of
          Inl err \<Rightarrow> Exit 1 err
        | Inr prompt \<Rightarrow> Spawn (js ''claude'') (claudeArgs args (- 1) prompt)) = Spawn cmd forwarded"
      by (simp add: docload_def Let_def)
    then obtain prompt where
      "imageReferences P fs cwd (js ''docshot'') = Inr prompt"
      "cmd = js ''claude''" "forwarded = claudeArgs args (- 1) prompt"
      by (auto split: sum.splits)
    then show ?thesis using nf by (auto simp: claudeArgs_def)
  next
    case False
    then obtain pre flag rest where
      s: "args = pre @ flag # rest" and f: "isImagesFlag flag"
      and np: "\<not> list_ex isImagesFlag pre" and ix: "findIndex isImagesFlag args = int (length pre)"
      using findIndex_split [of isImagesFlag args] by blast
    have ex: "int (length pre) + 1 < int (length args)"
    proof (rule ccontr)
      assume "\<not> int (length pre) + 1 < int (length args)"
      then have "docload P fs cwd args = Exit 1 ImagesFlagWithoutValue"
        using nh ix by (simp add: docload_def Let_def)
      with sp show False by simp
    qed
    then have "rest \<noteq> []" using s by auto
    then obtain v post where r: "rest = v # post" by (cases rest) auto
    have dir: "args ! nat (int (length pre) + 1) = v"
    proof -
      have "nat (int (length pre) + 1) = Suc (length pre)" by simp
      then show ?thesis using s r by (simp add: nth_append)
    qed
    from sp nh ix ex dir have
      "(case imageReferences P fs cwd v of
          Inl err \<Rightarrow> Exit 1 err
        | Inr prompt \<Rightarrow> Spawn (js ''claude'') (claudeArgs args (int (length pre)) prompt))
       = Spawn cmd forwarded"
      by (simp add: docload_def Let_def)
    then obtain prompt where
      "imageReferences P fs cwd v = Inr prompt"
      "cmd = js ''claude''" "forwarded = claudeArgs args (int (length pre)) prompt"
      by (auto split: sum.splits)
    moreover have "claudeArgs args (int (length pre)) prompt =
                   pre @ post @ [js ''--append-system-prompt'', prompt]"
      unfolding s r by (rule claudeArgs_removes_flag)
    ultimately show ?thesis using s r f np by blast
  qed
qed

theorem forwarded_arguments_witness:
  "\<not> list_ex (\<lambda>arg. arg \<in> set helpFlags)
       [js ''-p'', js ''-i'', js ''shots'', js ''x'', js ''--images'', js ''y''] \<and>
   docload examplePaths exampleFs (js ''/work'')
     [js ''-p'', js ''-i'', js ''shots'', js ''x'', js ''--images'', js ''y''] =
   Spawn (js ''claude'')
     [js ''-p'', js ''x'', js ''--images'', js ''y'', js ''--append-system-prompt'',
      js ''@shots/page_001.png @shots/page_002.png''] \<and>
   (\<exists>prompt.
      (\<not> list_ex isImagesFlag
            [js ''-p'', js ''-i'', js ''shots'', js ''x'', js ''--images'', js ''y''] \<and>
       imageReferences examplePaths exampleFs (js ''/work'') (js ''docshot'') = Inr prompt \<and>
       [js ''-p'', js ''x'', js ''--images'', js ''y'', js ''--append-system-prompt'',
        js ''@shots/page_001.png @shots/page_002.png''] =
       [js ''-p'', js ''-i'', js ''shots'', js ''x'', js ''--images'', js ''y''] @
       [js ''--append-system-prompt'', prompt]) \<or>
      (\<exists>pre flag v post.
         [js ''-p'', js ''-i'', js ''shots'', js ''x'', js ''--images'', js ''y''] =
           pre @ flag # v # post \<and>
         isImagesFlag flag \<and> \<not> list_ex isImagesFlag pre \<and>
         imageReferences examplePaths exampleFs (js ''/work'') v = Inr prompt \<and>
         [js ''-p'', js ''x'', js ''--images'', js ''y'', js ''--append-system-prompt'',
          js ''@shots/page_001.png @shots/page_002.png''] =
         pre @ post @ [js ''--append-system-prompt'', prompt]))"
proof -
  note h = example_args_no_help
  note s = example_docload
  from forwarded_arguments
         [where args = "[js ''-p'', js ''-i'', js ''shots'', js ''x'', js ''--images'', js ''y'']"
            and P = examplePaths and fs = exampleFs and cwd = "js ''/work''"
            and cmd = "js ''claude''"
            and forwarded = "[js ''-p'', js ''x'', js ''--images'', js ''y'',
                              js ''--append-system-prompt'',
                              js ''@shots/page_001.png @shots/page_002.png'']"]
       h s
  show ?thesis by blast
qed

text \<open>
  C10 as the specification states it fails when a help flag is present: the arguments
  are forwarded with \<open>--images\<close> and its value still in place and without
  \<open>--append-system-prompt\<close>.
\<close>

theorem forwarded_arguments_counterexample:
  "docload examplePaths exampleFs (js ''/work'') [js ''--images'', js ''shots'', js ''--help''] =
     Spawn (js ''claude'') [js ''--images'', js ''shots'', js ''--help''] \<and>
   js ''--images'' \<in> set [js ''--images'', js ''shots'', js ''--help''] \<and>
   js ''--append-system-prompt'' \<notin> set [js ''--images'', js ''shots'', js ''--help'']"
proof -
  have "list_ex (\<lambda>arg. arg \<in> set helpFlags) [js ''--images'', js ''shots'', js ''--help'']"
    by (simp add: helpFlags_def)
  then have "docload examplePaths exampleFs (js ''/work'')
               [js ''--images'', js ''shots'', js ''--help''] =
             Spawn (js ''claude'') [js ''--images'', js ''shots'', js ''--help'']"
    by (simp only: docload_def if_True)
  moreover have "js ''--append-system-prompt'' \<notin> set [js ''--images'', js ''shots'', js ''--help'']"
    by (simp add: js_def)
  ultimately show ?thesis by simp
qed

end
